theory Spec2Isabelle
  imports Complex_Main "HOL-Library.Multiset" "HOL-Library.AList" "HOL-Library.Product_Lexorder"
begin

section \<open>Data model\<close>

text \<open>
  The exceptions the code can raise: \<open>ValueError\<close> comes from \<open>DataFrame.sample\<close>,
  \<open>KeyError\<close> from a label lookup or from \<open>sort_values\<close>, \<open>AssertionError\<close> from an
  \<open>assert\<close>, \<open>NameError\<close> from the explicit \<open>raise NameError\<close>.
\<close>

datatype error = ValueError | KeyError | AssertionError | NameError

text \<open>
  A float is a finite number, one of the two infinities, or NaN. An operation on finite
  numbers overflows to an infinity where its exact result rounds beyond the largest
  double: from \<open>2 ^ 1024 - 2 ^ 970\<close> on, the midpoint between the largest double and
  \<open>2 ^ 1024\<close>. The rounding of the results in range is not modelled. The operations on
  infinities and NaN follow IEEE 754.
\<close>

datatype fval = Num real | PInf | NInf | NaN

definition overflow :: "real \<Rightarrow> fval" where
  "overflow x =
     (if 2 ^ 1024 - 2 ^ 970 \<le> x then PInf
      else if x \<le> - (2 ^ 1024 - 2 ^ 970) then NInf
      else Num x)"

definition in_range :: "real \<Rightarrow> bool" where
  "in_range x = (\<bar>x\<bar> < 2 ^ 1024 - 2 ^ 970)"

fun fneg :: "fval \<Rightarrow> fval" where
  "fneg (Num a) = Num (- a)"
| "fneg PInf = NInf"
| "fneg NInf = PInf"
| "fneg NaN = NaN"

fun fadd :: "fval \<Rightarrow> fval \<Rightarrow> fval" where
  "fadd (Num a) (Num b) = overflow (a + b)"
| "fadd NaN v = NaN"
| "fadd v NaN = NaN"
| "fadd PInf NInf = NaN"
| "fadd NInf PInf = NaN"
| "fadd PInf v = PInf"
| "fadd v PInf = PInf"
| "fadd NInf v = NInf"
| "fadd v NInf = NInf"

definition fsub :: "fval \<Rightarrow> fval \<Rightarrow> fval" where
  "fsub a b = fadd a (fneg b)"

fun is_zero :: "fval \<Rightarrow> bool" where
  "is_zero (Num a) = (a = 0)"
| "is_zero v = False"

fun is_positive :: "fval \<Rightarrow> bool" where
  "is_positive (Num a) = (0 < a)"
| "is_positive PInf = True"
| "is_positive v = False"

fun fmul :: "fval \<Rightarrow> fval \<Rightarrow> fval" where
  "fmul (Num a) (Num b) = overflow (a * b)"
| "fmul NaN v = NaN"
| "fmul v NaN = NaN"
| "fmul a b =
     (if is_zero a \<or> is_zero b then NaN
      else if is_positive a = is_positive b then PInf else NInf)"

text \<open>Division by a count of at least 1, and the square root.\<close>

fun fdiv_count :: "fval \<Rightarrow> nat \<Rightarrow> fval" where
  "fdiv_count (Num a) n = overflow (a / real n)"
| "fdiv_count v n = v"

fun fsqrt :: "fval \<Rightarrow> fval" where
  "fsqrt (Num a) = (if a < 0 then NaN else Num (sqrt a))"
| "fsqrt PInf = PInf"
| "fsqrt NInf = NaN"
| "fsqrt NaN = NaN"

text \<open>A sum accumulates its terms in their order, from 0.\<close>

definition fsum :: "fval list \<Rightarrow> fval" where
  "fsum vs = fold (\<lambda>v acc. fadd acc v) vs (Num 0)"

text \<open>
  A DataFrame of floats: the column names and one record per row. The entries of a
  series are finite doubles, and a record is read at column names only.
\<close>

record dframe =
  columns :: "string list"
  rows :: "(string \<Rightarrow> real) list"

text \<open>
  A Python dict is an association list in insertion order; \<open>d[k] = v\<close> is
  \<open>AList.update k v d\<close>, which replaces in place or appends at the end.
\<close>

type_synonym 'v dict = "(string \<times> 'v) list"

definition py_dict :: "(string \<times> 'v) list \<Rightarrow> 'v dict" where
  "py_dict kvs = fold (\<lambda>(k, v). AList.update k v) kvs []"

definition keys :: "'v dict \<Rightarrow> string set" where
  "keys d = fst ` set d"

text \<open>
  The random source. \<open>DataFrame.sample(n)\<close> (without replacement, the default) takes the
  first \<open>n\<close> entries of a random permutation of the row positions, and raises
  \<open>ValueError\<close> for a negative \<open>n\<close> and for an \<open>n\<close> above the number of rows. The
  generator is a function from its state (a draw counter) and the population size to that
  permutation.
\<close>

type_synonym rng = "nat \<Rightarrow> nat \<Rightarrow> nat list"

definition valid_rng :: "rng \<Rightarrow> bool" where
  "valid_rng gen = (\<forall>s n. mset (gen s n) = mset [0..<n])"

definition draw :: "rng \<Rightarrow> nat \<Rightarrow> nat \<Rightarrow> nat \<Rightarrow> nat list" where
  "draw gen s n k = take k (gen s n)"

definition sample :: "rng \<Rightarrow> nat \<Rightarrow> dframe \<Rightarrow> int \<Rightarrow> error + (dframe \<times> nat)" where
  "sample gen s df n =
     (if n < 0 \<or> int (length (rows df)) < n then Inl ValueError
      else Inr (df\<lparr>rows := map (\<lambda>i. rows df ! i) (draw gen s (length (rows df)) (nat n))\<rparr>,
                Suc s))"

text \<open>The mean of a column: the sum of its entries over their count, NaN for no entry.\<close>

definition col_mean :: "string \<Rightarrow> (string \<Rightarrow> real) list \<Rightarrow> fval" where
  "col_mean c rs =
     (if rs = [] then NaN else fdiv_count (fsum (map (\<lambda>r. Num (r c)) rs)) (length rs))"

definition mean :: "dframe \<Rightarrow> (string \<times> fval) list" where
  "mean df = map (\<lambda>c. (c, col_mean c (rows df))) (columns df)"

section \<open>sample_events\<close>

text \<open>
  \<open>sample = dict(df.sample(sampling_block).mean())\<close>, then the two derived entries:
  \<open>sample['C'] = beta**2 * system_size * (sample['E2'] - sample['E']**2)\<close> when both keys
  are in the sample, and \<open>sample['X'] = beta * system_size * (sample['M2'] - sample['M']**2)\<close>
  likewise. The mean of no rows is NaN. The inverse temperature and the system size are
  taken as finite doubles.
\<close>

definition sample_events ::
  "rng \<Rightarrow> nat \<Rightarrow> dframe \<Rightarrow> int \<Rightarrow> real \<Rightarrow> int \<Rightarrow> error + (fval dict \<times> nat)" where
  "sample_events gen s df system_size beta sampling_block =
     (case sample gen s df sampling_block of
        Inl e \<Rightarrow> Inl e
      | Inr (smp, s') \<Rightarrow>
          let sample0 = py_dict (mean smp);
              sample1 =
                (case (map_of sample0 ''E'', map_of sample0 ''E2'') of
                   (Some e, Some e2) \<Rightarrow>
                     AList.update ''C''
                       (fmul (fmul (fmul (Num beta) (Num beta)) (Num (real_of_int system_size)))
                          (fsub e2 (fmul e e)))
                       sample0
                 | _ \<Rightarrow> sample0);
              sample2 =
                (case (map_of sample1 ''M'', map_of sample1 ''M2'') of
                   (Some m, Some m2) \<Rightarrow>
                     AList.update ''X''
                       (fmul (fmul (Num beta) (Num (real_of_int system_size)))
                          (fsub m2 (fmul m m)))
                       sample1
                 | _ \<Rightarrow> sample1)
          in Inr (sample2, s'))"

section \<open>bootstrap\<close>

text \<open>
  \<open>np.mean\<close>, the sum over the count, and \<open>np.std\<close>, the population standard deviation
  (\<open>ddof = 0\<close>): the square root of the mean of the squared deviations from the mean.
\<close>

definition np_mean :: "fval list \<Rightarrow> fval" where
  "np_mean vs = (if vs = [] then NaN else fdiv_count (fsum vs) (length vs))"

definition np_std :: "fval list \<Rightarrow> fval" where
  "np_std vs =
     (let arrmean = np_mean vs
      in fsqrt (np_mean (map (\<lambda>v. fmul (fsub v arrmean) (fsub v arrmean)) vs)))"

text \<open>\<open>observables[name].append(val)\<close> on a \<open>defaultdict(list)\<close>.\<close>

definition append_obs :: "string \<times> fval \<Rightarrow> fval list dict \<Rightarrow> fval list dict" where
  "append_obs nv obs =
     (case nv of (name, val) \<Rightarrow>
        AList.update name
          ((case map_of obs name of None \<Rightarrow> [] | Some vals \<Rightarrow> vals) @ [val]) obs)"

text \<open>The slice \<open>df.iloc[t:]\<close>: a negative \<open>t\<close> counts from the end.\<close>

definition iloc_from :: "int \<Rightarrow> 'a list \<Rightarrow> 'a list" where
  "iloc_from t xs = (if 0 \<le> t then drop (nat t) xs else drop (length xs - nat (- t)) xs)"

text \<open>The loop \<open>for i in range(repeat)\<close>, with the iterations still to run as a counter.\<close>

fun bootstrap_loop ::
  "rng \<Rightarrow> dframe \<Rightarrow> int \<Rightarrow> real \<Rightarrow> int \<Rightarrow> nat \<Rightarrow> nat \<Rightarrow> fval list dict
    \<Rightarrow> error + (fval list dict \<times> nat)" where
  "bootstrap_loop gen df system_size beta sampling_block 0 s obs = Inr (obs, s)"
| "bootstrap_loop gen df system_size beta sampling_block (Suc k) s obs =
     (case sample_events gen s df system_size beta sampling_block of
        Inl e \<Rightarrow> Inl e
      | Inr (d, s') \<Rightarrow>
          bootstrap_loop gen df system_size beta sampling_block k s' (fold append_obs d obs))"

definition estimate_obs :: "string \<times> fval list \<Rightarrow> fval dict \<Rightarrow> fval dict" where
  "estimate_obs nvs estimates =
     (case nvs of (name, vals) \<Rightarrow>
        AList.update (name @ ''err'') (np_std vals) (AList.update name (np_mean vals) estimates))"

text \<open>
  \<open>bootstrap\<close>; the argument \<open>file\<close> is the frame that \<open>pd.read_csv(filename)\<close> returns.
\<close>

definition bootstrap ::
  "rng \<Rightarrow> nat \<Rightarrow> dframe \<Rightarrow> int \<Rightarrow> real \<Rightarrow> int \<Rightarrow> int \<Rightarrow> int \<Rightarrow> error + (fval dict \<times> nat)" where
  "bootstrap gen s file system_size beta sampling_block repeat thermalization =
     (let df = file\<lparr>rows := iloc_from thermalization (rows file)\<rparr> in
      case bootstrap_loop gen df system_size beta sampling_block (nat repeat) s [] of
        Inl e \<Rightarrow> Inl e
      | Inr (observables, s') \<Rightarrow> Inr (fold estimate_obs observables [], s'))"

text \<open>
  The value of the observable \<open>name\<close> in the block that \<open>sample_events\<close> draws at the
  state \<open>s\<close> of the random source, if the draw succeeds and the block has the observable.
\<close>

definition block_value ::
  "rng \<Rightarrow> dframe \<Rightarrow> int \<Rightarrow> real \<Rightarrow> int \<Rightarrow> string \<Rightarrow> nat \<Rightarrow> fval option" where
  "block_value gen df system_size beta sampling_block name s =
     (case sample_events gen s df system_size beta sampling_block of
        Inl e \<Rightarrow> None
      | Inr (d, s') \<Rightarrow> map_of d name)"

section \<open>autocorrelation\<close>

text \<open>
  \<open>df_raw[name]\<close> raises \<open>KeyError\<close> for a name that is no column; \<open>series[i]\<close> on the
  default integer index is a label lookup, which raises \<open>KeyError\<close> for every \<open>i\<close>
  outside \<open>0 .. len - 1\<close> (a negative \<open>i\<close> does not count from the end).
\<close>

definition getitem :: "dframe \<Rightarrow> string \<Rightarrow> error + real list" where
  "getitem df name =
     (if name \<in> set (columns df) then Inr (map (\<lambda>r. r name) (rows df)) else Inl KeyError)"

definition series_at :: "real list \<Rightarrow> int \<Rightarrow> error + real" where
  "series_at xs i = (if 0 \<le> i \<and> i < int (length xs) then Inr (xs ! nat i) else Inl KeyError)"

fun autocorrelation_loop ::
  "string \<Rightarrow> int \<Rightarrow> dframe \<Rightarrow> int list \<Rightarrow> real \<times> real \<times> real \<Rightarrow> error + (real \<times> real \<times> real)" where
  "autocorrelation_loop name t df_raw [] acc = Inr acc"
| "autocorrelation_loop name t df_raw (i # rest) acc =
     (case acc of (sum1, sum2, sum3) \<Rightarrow>
        (case getitem df_raw name of
           Inl e \<Rightarrow> Inl e
         | Inr col \<Rightarrow>
             (case series_at col i of
                Inl e \<Rightarrow> Inl e
              | Inr a \<Rightarrow>
                  (case series_at col (i + t) of
                     Inl e \<Rightarrow> Inl e
                   | Inr b \<Rightarrow>
                       autocorrelation_loop name t df_raw rest
                         (sum1 + a * b, sum2 + a, sum3 + b)))))"

definition autocorrelation :: "string \<Rightarrow> int \<Rightarrow> dframe \<Rightarrow> error + real" where
  "autocorrelation name t df_raw =
     (let tmax = int (length (rows df_raw)) in
      if \<not> t < tmax then Inl AssertionError
      else
        (case autocorrelation_loop name t df_raw [0..tmax - t - 1] (0, 0, 0) of
           Inl e \<Rightarrow> Inl e
         | Inr (sum1, sum2, sum3) \<Rightarrow>
             let norm = 1 / real_of_int (tmax - t)
             in Inr (norm * sum1 - norm ^ 2 * sum2 * sum3)))"

section \<open>process_data_for_plotting\<close>

text \<open>
  What the code reads from the directory \<open>path\<close>: the outcome of
  \<open>process_meta_info(path)\<close> (the number of sweeps, the lattice size and the table of
  the runs, one pair of \<open>K\<close> and \<open>T\<close> per index), the names \<open>os.listdir(path)\<close> returns,
  and the frame \<open>pd.read_csv\<close> returns for a file name.
\<close>

record dataset =
  meta_info :: "error + (int \<times> int \<times> (real \<times> real) list)"
  listdir :: "string list"
  read_csv :: "string \<Rightarrow> dframe"

text \<open>\<open>re.match(r'cold.*\.csv', f)\<close>: the dot of \<open>.*\<close> matches no newline.\<close>

fun contains :: "string \<Rightarrow> string \<Rightarrow> bool" where
  "contains sub [] = (sub = [])"
| "contains sub (c # cs) = (take (length sub) (c # cs) = sub \<or> contains sub cs)"

definition is_cold_csv :: "string \<Rightarrow> bool" where
  "is_cold_csv f =
     (take 4 f = ''cold'' \<and> contains ''.csv'' (takeWhile (\<lambda>c. c \<noteq> CHR 0x0A) (drop 4 f)))"

text \<open>\<open>re.findall(r"[0-9]+", fname)\<close> and \<open>int(index[0])\<close>: the first run of digits.\<close>

definition is_digit :: "char \<Rightarrow> bool" where
  "is_digit c = (c \<in> set ''0123456789'')"

definition first_digits :: "string \<Rightarrow> string" where
  "first_digits fname = takeWhile is_digit (dropWhile (\<lambda>c. \<not> is_digit c) fname)"

definition int_of_digits :: "string \<Rightarrow> nat" where
  "int_of_digits ds = fold (\<lambda>c n. 10 * n + (of_char c - 48)) ds 0"

text \<open>\<open>sweep.at[index, col]\<close>: \<open>KeyError\<close> for an index the table does not have.\<close>

definition sweep_at :: "(real \<times> real) list \<Rightarrow> nat \<Rightarrow> error + (real \<times> real)" where
  "sweep_at sweep index = (if index < length sweep then Inr (sweep ! index) else Inl KeyError)"

text \<open>
  The body of the loop over the files. The call of \<open>bootstrap\<close> is the source's
  \<open>bootstrap(fname, system_size, beta, repeat, thermalization)\<close>: five positional
  arguments, so that \<open>repeat\<close> is bound to the parameter \<open>sampling_block\<close>,
  \<open>thermalization\<close> to the parameter \<open>repeat\<close>, and the parameter \<open>thermalization\<close> takes
  its default 1000.
\<close>

definition process_file ::
  "rng \<Rightarrow> dataset \<Rightarrow> string \<Rightarrow> (real \<times> real) list \<Rightarrow> int \<Rightarrow> int \<Rightarrow> int \<Rightarrow> string \<Rightarrow> nat
    \<Rightarrow> error + (fval dict \<times> nat)" where
  "process_file gen ds path sweep system_size repeat thermalization fname s =
     (if first_digits fname = [] then Inl NameError
      else
        (case sweep_at sweep (int_of_digits (first_digits fname)) of
           Inl e \<Rightarrow> Inl e
         | Inr (k, beta) \<Rightarrow>
             (case bootstrap gen s (read_csv ds (path @ ''/'' @ fname)) system_size beta
                     repeat thermalization 1000 of
                Inl e \<Rightarrow> Inl e
              | Inr (estimates, s') \<Rightarrow>
                  Inr (fold (\<lambda>(name, v). AList.update name v) estimates
                         [(''K'', Num k), (''T'', Num beta)], s'))))"

fun process_files ::
  "rng \<Rightarrow> dataset \<Rightarrow> string \<Rightarrow> (real \<times> real) list \<Rightarrow> int \<Rightarrow> int \<Rightarrow> int \<Rightarrow> string list \<Rightarrow> nat
    \<Rightarrow> fval dict list \<Rightarrow> error + (fval dict list \<times> nat)" where
  "process_files gen ds path sweep system_size repeat thermalization [] s rows_list =
     Inr (rows_list, s)"
| "process_files gen ds path sweep system_size repeat thermalization (fname # files) s rows_list =
     (case process_file gen ds path sweep system_size repeat thermalization fname s of
        Inl e \<Rightarrow> Inl e
      | Inr (data_dict, s') \<Rightarrow>
          process_files gen ds path sweep system_size repeat thermalization files s'
            (rows_list @ [data_dict]))"

text \<open>
  \<open>pd.DataFrame(rows_list).sort_values('T')\<close>. The columns of the table are the keys of
  its rows, and sorting by a name that is no column raises \<open>KeyError\<close>. A row without
  the key has NaN in the column, and NaN sorts last, after the positive infinity.
  The source's sort is not stable; the model's is, so the order of rows with equal \<open>T\<close> is
  one of those the source may produce.
\<close>

definition table_columns :: "fval dict list \<Rightarrow> string list" where
  "table_columns rows_list = remdups (concat (map (map fst) rows_list))"

definition column_T :: "fval dict \<Rightarrow> fval" where
  "column_T row = (case map_of row ''T'' of None \<Rightarrow> NaN | Some v \<Rightarrow> v)"

definition t_key :: "fval dict \<Rightarrow> nat \<times> real" where
  "t_key row =
     (case column_T row of
        NInf \<Rightarrow> (0, 0) | Num x \<Rightarrow> (1, x) | PInf \<Rightarrow> (2, 0) | NaN \<Rightarrow> (3, 0))"

text \<open>The ascending order of floats in which NaN comes last.\<close>

fun fle :: "fval \<Rightarrow> fval \<Rightarrow> bool" where
  "fle v NaN = True"
| "fle NaN v = False"
| "fle NInf v = True"
| "fle v NInf = False"
| "fle v PInf = True"
| "fle PInf v = False"
| "fle (Num a) (Num b) = (a \<le> b)"

definition sort_values_T :: "fval dict list \<Rightarrow> error + fval dict list" where
  "sort_values_T rows_list =
     (if ''T'' \<in> set (table_columns rows_list) then Inr (sort_key t_key rows_list)
      else Inl KeyError)"

definition process_data_for_plotting ::
  "rng \<Rightarrow> nat \<Rightarrow> dataset \<Rightarrow> string \<Rightarrow> int \<Rightarrow> int \<Rightarrow> bool \<Rightarrow> int \<Rightarrow> int
    \<Rightarrow> error + ((fval dict list \<times> int \<times> int) \<times> nat)" where
  "process_data_for_plotting gen s ds path size_multiplier sampling_block write repeat
       thermalization =
     (case meta_info ds of
        Inl e \<Rightarrow> Inl e
      | Inr (mcs, lsize, sweep) \<Rightarrow>
          let system_size = lsize * lsize * lsize * size_multiplier;
              files = filter is_cold_csv (listdir ds)
          in (case process_files gen ds path sweep system_size repeat thermalization files s []
                of
                Inl e \<Rightarrow> Inl e
              | Inr (rows_list, s') \<Rightarrow>
                  (case sort_values_T rows_list of
                     Inl e \<Rightarrow> Inl e
                   | Inr df \<Rightarrow> Inr ((df, mcs, system_size), s'))))"

section \<open>Concrete inputs\<close>

definition record_of :: "(string \<times> real) list \<Rightarrow> string \<Rightarrow> real" where
  "record_of kvs k = (case map_of kvs k of None \<Rightarrow> 0 | Some v \<Rightarrow> v)"

definition series5 :: dframe where
  "series5 =
     \<lparr>columns = [''E'', ''E2''],
      rows = [record_of [(''E'', 1), (''E2'', 1)], record_of [(''E'', 3), (''E2'', 9)],
              record_of [(''E'', 5), (''E2'', 25)], record_of [(''E'', 7), (''E2'', 49)]]\<rparr>"

definition rev_rng :: rng where
  "rev_rng s n = rev [0..<n]"

text \<open>A random source whose draw of one row is the row at the position of its state.\<close>

definition shift_rng :: rng where
  "shift_rng s n = rotate s [0..<n]"

text \<open>One record whose energy is a double with a square beyond the largest double.\<close>

definition huge :: real where
  "huge = 10 ^ 200"

definition frame_big :: dframe where
  "frame_big =
     \<lparr>columns = [''E'', ''E2''], rows = [record_of [(''E'', huge), (''E2'', 1)]]\<rparr>"

definition frame_EC :: dframe where
  "frame_EC =
     \<lparr>columns = [''E'', ''E2'', ''C''],
      rows = [record_of [(''E'', 1), (''E2'', 3), (''C'', 7)]]\<rparr>"

definition frame_Eerr :: dframe where
  "frame_Eerr =
     \<lparr>columns = [''E'', ''Eerr''], rows = [record_of [(''E'', 1), (''Eerr'', 5)]]\<rparr>"

definition frame_E :: dframe where
  "frame_E = \<lparr>columns = [''E''], rows = [record_of [(''E'', 1)], record_of [(''E'', 3)]]\<rparr>"

text \<open>A directory with the metadata file and no data file.\<close>

definition only_readme :: dataset where
  "only_readme =
     \<lparr>meta_info = Inr (1000, 4, [(1, 2)]), listdir = [''readme.txt''],
      read_csv = (\<lambda>f. series5)\<rparr>"

text \<open>One run, of the four records of \<open>series5\<close>, at \<open>K = 1\<close> and \<open>T = 2\<close>.\<close>

definition one_run :: dataset where
  "one_run =
     \<lparr>meta_info = Inr (1000, 1, [(1, 2)]), listdir = [''cold0.csv'', ''readme.txt''],
      read_csv = (\<lambda>f. series5)\<rparr>"

text \<open>Two runs, listed with the higher temperature first.\<close>

definition two_runs :: dataset where
  "two_runs =
     \<lparr>meta_info = Inr (1000, 2, [(4, 1), (2, 3)]),
      listdir = [''cold1.csv'', ''readme.txt'', ''cold0.csv''],
      read_csv = (\<lambda>f. series5)\<rparr>"

text \<open>
  One run of 1001 equal records, at \<open>K = 1\<close> and \<open>T = 2\<close>: with a column named \<open>T\<close>
  in \<open>run_with_T\<close>, without it in \<open>long_run\<close>.
\<close>

definition run_with_T :: dataset where
  "run_with_T =
     \<lparr>meta_info = Inr (1000, 1, [(1, 2)]), listdir = [''cold0.csv'', ''readme.txt''],
      read_csv = (\<lambda>f. \<lparr>columns = [''E'', ''E2'', ''T''],
                          rows = replicate 1001 (record_of [(''E'', 1), (''E2'', 3), (''T'', 7)])\<rparr>)\<rparr>"

definition long_run :: dataset where
  "long_run =
     \<lparr>meta_info = Inr (1000, 1, [(1, 2)]), listdir = [''cold0.csv'', ''readme.txt''],
      read_csv = (\<lambda>f. \<lparr>columns = [''E'', ''E2''],
                          rows = replicate 1001 (record_of [(''E'', 1), (''E2'', 3)])\<rparr>)\<rparr>"

section \<open>Floats\<close>

lemma overflow_in_range: "in_range x \<Longrightarrow> overflow x = Num x"
  by (auto simp: overflow_def in_range_def)

lemma overflow_Num: "overflow x = Num y \<longleftrightarrow> y = x \<and> in_range x"
  by (auto simp: overflow_def in_range_def)

lemma in_range_small: "\<bar>x\<bar> \<le> 1000000 \<Longrightarrow> in_range x"
proof -
  have "(1000000::real) < 2 ^ 1024 - 2 ^ 970"
    by simp
  then show "\<bar>x\<bar> \<le> 1000000 \<Longrightarrow> in_range x"
    unfolding in_range_def by linarith
qed

lemma overflow_small: "\<bar>x\<bar> \<le> 1000000 \<Longrightarrow> overflow x = Num x"
  by (simp add: in_range_small overflow_in_range)

lemma in_range_mono: "in_range y \<Longrightarrow> \<bar>x\<bar> \<le> \<bar>y\<bar> \<Longrightarrow> in_range x"
  by (simp add: in_range_def)

lemma fadd_Num:
  "fadd a b = Num z \<Longrightarrow> \<exists>x y. a = Num x \<and> b = Num y \<and> z = x + y \<and> in_range z"
  by (cases a; cases b) (auto simp: overflow_Num)

lemma fneg_Num: "fneg b = Num z \<Longrightarrow> b = Num (- z)"
  by (cases b) auto

lemma fsub_Num:
  "fsub a b = Num z \<Longrightarrow> \<exists>x y. a = Num x \<and> b = Num y \<and> z = x - y \<and> in_range z"
  unfolding fsub_def by (cases a; cases b) (auto simp: overflow_Num)

lemma fmul_Num:
  "fmul a b = Num z \<Longrightarrow> \<exists>x y. a = Num x \<and> b = Num y \<and> z = x * y \<and> in_range z"
  by (cases a; cases b) (auto simp: overflow_Num split: if_splits)

lemma fdiv_count_Num:
  "fdiv_count v n = Num z \<Longrightarrow> \<exists>x. v = Num x \<and> z = x / real n \<and> in_range z"
  by (cases v) (auto simp: overflow_Num)

lemma fsqrt_Num: "fsqrt v = Num z \<Longrightarrow> \<exists>x. v = Num x \<and> 0 \<le> x \<and> z = sqrt x"
  by (cases v) (auto split: if_splits)

lemma fold_fadd_Num:
  "fold (\<lambda>v acc. fadd acc v) vs acc = Num m \<Longrightarrow>
     \<exists>a xs. acc = Num a \<and> vs = map Num xs \<and> m = a + sum_list xs"
proof (induction vs arbitrary: acc)
  case Nil
  then show ?case by simp
next
  case (Cons v vs)
  obtain a1 xs where a1: "fadd acc v = Num a1" and xs: "vs = map Num xs"
    and m: "m = a1 + sum_list xs"
    using Cons.IH[of "fadd acc v"] Cons.prems by auto
  obtain a x where "acc = Num a" "v = Num x" "a1 = a + x"
    using fadd_Num[OF a1] by blast
  then have "acc = Num a \<and> v # vs = map Num (x # xs) \<and> m = a + sum_list (x # xs)"
    using xs m by simp
  then show ?case
    by (intro exI[of _ a] exI[of _ "x # xs"])
qed

lemma fsum_Num: "fsum vs = Num m \<Longrightarrow> \<exists>xs. vs = map Num xs \<and> m = sum_list xs"
  unfolding fsum_def using fold_fadd_Num[of vs "Num 0" m] by auto

lemma fold_fadd_bounded:
  "in_range (\<bar>a\<bar> + sum_list (map abs xs)) \<Longrightarrow>
     fold (\<lambda>v acc. fadd acc v) (map Num xs) (Num a) = Num (a + sum_list xs)"
proof (induction xs arbitrary: a)
  case Nil
  then show ?case by simp
next
  case (Cons x xs)
  have le: "\<bar>a + x\<bar> + sum_list (map abs xs) \<le> \<bar>a\<bar> + sum_list (map abs (x # xs))"
    by simp
  have nn: "0 \<le> sum_list (map abs xs)"
    by (induction xs) auto
  have r1: "in_range (\<bar>a + x\<bar> + sum_list (map abs xs))"
    using in_range_mono[OF Cons.prems, of "\<bar>a + x\<bar> + sum_list (map abs xs)"] le nn by simp
  have r2: "in_range (a + x)"
    using in_range_mono[OF r1, of "a + x"] nn by simp
  show ?case
    using Cons.IH[OF r1] r2 by (simp add: overflow_in_range add.assoc)
qed

lemma fsum_bounded:
  "in_range (sum_list (map abs xs)) \<Longrightarrow> fsum (map Num xs) = Num (sum_list xs)"
  unfolding fsum_def using fold_fadd_bounded[of 0 xs] by simp

lemma abs_sum_list_le: "\<bar>sum_list xs\<bar> \<le> sum_list (map abs (xs::real list))"
  by (induction xs) auto

lemma np_mean_Num:
  assumes "np_mean vs = Num m"
  shows "\<exists>xs. vs = map Num xs \<and> xs \<noteq> [] \<and> m = sum_list xs / real (length xs) \<and> in_range m"
proof -
  have ne: "vs \<noteq> []"
    using assms by (auto simp: np_mean_def)
  then have d: "fdiv_count (fsum vs) (length vs) = Num m"
    using assms by (simp add: np_mean_def)
  obtain t where t: "fsum vs = Num t" and m: "m = t / real (length vs)" and r: "in_range m"
    using fdiv_count_Num[OF d] by blast
  obtain xs where xs: "vs = map Num xs" and s: "t = sum_list xs"
    using fsum_Num[OF t] by blast
  show ?thesis
    using xs s m r ne by auto
qed

lemma np_mean_bounded:
  assumes "xs \<noteq> []" and "in_range (sum_list (map abs xs))"
  shows "np_mean (map Num xs) = Num (sum_list xs / real (length xs))"
proof -
  have n: "1 \<le> real (length xs)"
    using assms(1) by (cases xs) auto
  have "\<bar>sum_list xs / real (length xs)\<bar> = \<bar>sum_list xs\<bar> / real (length xs)"
    by simp
  also have "\<dots> \<le> \<bar>sum_list xs\<bar> / 1"
    using n by (intro divide_left_mono) auto
  also have "\<dots> \<le> sum_list (map abs xs)"
    using abs_sum_list_le[of xs] by simp
  finally have le: "\<bar>sum_list xs / real (length xs)\<bar> \<le> \<bar>sum_list (map abs xs)\<bar>"
    by simp
  have "in_range (sum_list xs / real (length xs))"
    using in_range_mono[OF assms(2) le] .
  then show ?thesis
    using assms(1) fsum_bounded[OF assms(2)] by (simp add: np_mean_def overflow_in_range)
qed

lemma np_mean_single: "in_range x \<Longrightarrow> np_mean [Num x] = Num x"
  by (simp add: np_mean_def fsum_def overflow_in_range)

lemma in_range_0: "in_range 0"
  by (simp add: in_range_def)

lemma fsub_self: "fsub (Num x) (Num x) = Num 0"
  by (simp add: fsub_def overflow_in_range in_range_0)

lemma fmul_zero: "fmul (Num 0) (Num 0) = Num 0"
  by (simp add: overflow_in_range in_range_0)

lemma np_std_single:
  assumes "in_range x"
  shows "np_std [Num x] = Num 0"
proof -
  have m: "np_mean [Num x] = Num x"
    using assms by (rule np_mean_single)
  have "np_std [Num x] = fsqrt (np_mean [fmul (fsub (Num x) (Num x)) (fsub (Num x) (Num x))])"
    by (simp only: np_std_def Let_def m list.map)
  also have "\<dots> = fsqrt (np_mean [Num 0])"
    by (simp only: fsub_self fmul_zero)
  also have "\<dots> = Num 0"
    by (simp add: np_mean_single in_range_0)
  finally show ?thesis .
qed

lemma squared_deviation_Num:
  assumes "fmul (fsub v m) (fsub v m) = Num y"
  shows "\<exists>x mu. v = Num x \<and> m = Num mu \<and> y = (x - mu) ^ 2"
proof -
  obtain z z' where z: "fsub v m = Num z" and z': "fsub v m = Num z'" and y: "y = z * z'"
    using fmul_Num[OF assms] by blast
  have y2: "y = z * z"
    using z z' y by simp
  obtain x mu where "v = Num x" "m = Num mu" "z = x - mu"
    using fsub_Num[OF z] by blast
  then show ?thesis
    using y2 by (simp add: power2_eq_square)
qed

lemma squared_deviations_Num:
  "map (\<lambda>v. fmul (fsub v (Num mu)) (fsub v (Num mu))) vs = map Num ys \<Longrightarrow>
     \<exists>xs. vs = map Num xs \<and> ys = map (\<lambda>x. (x - mu) ^ 2) xs"
proof (induction vs arbitrary: ys)
  case Nil
  then show ?case by simp
next
  case (Cons v vs)
  obtain y ys' where ys: "ys = y # ys'"
    using Cons.prems by (cases ys) auto
  have h: "fmul (fsub v (Num mu)) (fsub v (Num mu)) = Num y"
    and t: "map (\<lambda>v. fmul (fsub v (Num mu)) (fsub v (Num mu))) vs = map Num ys'"
    using Cons.prems ys by simp_all
  obtain x where x: "v = Num x" "y = (x - mu) ^ 2"
    using squared_deviation_Num[OF h] by auto
  obtain xs where xs: "vs = map Num xs" "ys' = map (\<lambda>x. (x - mu) ^ 2) xs"
    using Cons.IH[OF t] by blast
  have "v # vs = map Num (x # xs) \<and> ys = map (\<lambda>x. (x - mu) ^ 2) (x # xs)"
    using x xs ys by simp
  then show ?case
    by (intro exI[of _ "x # xs"])
qed

lemma np_std_Num:
  assumes "np_std vs = Num sd"
  shows "\<exists>xs. vs = map Num xs \<and> xs \<noteq> []
           \<and> sd = sqrt (sum_list (map (\<lambda>x. (x - sum_list xs / real (length xs)) ^ 2) xs)
                       / real (length xs))"
proof -
  define m where "m = np_mean vs"
  define sq where "sq = map (\<lambda>v. fmul (fsub v m) (fsub v m)) vs"
  have "fsqrt (np_mean sq) = Num sd"
    using assms by (simp add: np_std_def Let_def m_def sq_def)
  then obtain q where q: "np_mean sq = Num q" and sd: "sd = sqrt q"
    using fsqrt_Num by blast
  obtain ys where ys: "sq = map Num ys" and yne: "ys \<noteq> []"
    and qv: "q = sum_list ys / real (length ys)"
    using np_mean_Num[OF q] by blast
  obtain v vs' where vs: "vs = v # vs'"
    using ys yne by (cases vs) (auto simp: sq_def)
  obtain y ys' where ysc: "ys = y # ys'"
    using yne by (cases ys) auto
  have "fmul (fsub v m) (fsub v m) = Num y"
    using ys vs ysc by (simp add: sq_def)
  then obtain mu where mu: "m = Num mu"
    using squared_deviation_Num by blast
  have "map (\<lambda>v. fmul (fsub v (Num mu)) (fsub v (Num mu))) vs = map Num ys"
    using ys mu by (simp add: sq_def)
  then obtain xs where xs: "vs = map Num xs" and yx: "ys = map (\<lambda>x. (x - mu) ^ 2) xs"
    using squared_deviations_Num by blast
  have "np_mean vs = Num mu"
    using mu by (simp add: m_def)
  then obtain xs' where xs': "vs = map Num xs'" and muv: "mu = sum_list xs' / real (length xs')"
    using np_mean_Num by blast
  have "inj Num"
    by (simp add: inj_def)
  then have inj: "xs' = xs"
    using xs xs' by (metis inj_map_eq_map)
  have xne: "xs \<noteq> []"
    using xs vs by auto
  have "sd = sqrt (sum_list (map (\<lambda>x. (x - sum_list xs / real (length xs)) ^ 2) xs)
                       / real (length xs))"
    using sd qv yx muv inj by simp
  then show ?thesis
    using xs xne by blast
qed

section \<open>Dictionaries and permutations\<close>

lemma py_dict_acc:
  "map_of (fold (\<lambda>(k, v). AList.update k v) kvs acc) = map_of acc ++ map_of (rev kvs)"
  by (induction kvs arbitrary: acc)
    (auto simp: update_conv' fun_eq_iff map_add_def split: option.splits)

lemma map_of_py_dict: "map_of (py_dict kvs) = map_of (rev kvs)"
  by (simp add: py_dict_def py_dict_acc)

lemma distinct_fold_update:
  "distinct (map fst acc) \<Longrightarrow> distinct (map fst (fold (\<lambda>(k, v). AList.update k v) kvs acc))"
  by (induction kvs arbitrary: acc) (auto simp: distinct_update)

lemma distinct_py_dict: "distinct (map fst (py_dict kvs))"
  by (simp add: py_dict_def distinct_fold_update)

lemma map_of_mean:
  "map_of (py_dict (mean df)) c =
     (if c \<in> set (columns df) then Some (col_mean c (rows df)) else None)"
proof -
  have "rev (mean df) = map (\<lambda>c. (c, col_mean c (rows df))) (rev (columns df))"
    by (simp add: mean_def rev_map)
  then show ?thesis
    by (simp add: map_of_py_dict map_of_map_restrict restrict_map_def)
qed

lemma sum_list_perm:
  fixes f :: "'a \<Rightarrow> real"
  assumes "mset xs = mset ys"
  shows "sum_list (map f xs) = sum_list (map f ys)"
proof -
  have "mset (map f xs) = mset (map f ys)"
    using assms by (metis mset_map)
  then show ?thesis
    by (metis sum_mset_sum_list)
qed

lemma mset_map_nth:
  assumes "mset p = mset [0..<length rs]"
  shows "mset (map ((!) rs) p) = mset rs"
proof -
  have "mset (map ((!) rs) p) = mset (map ((!) rs) [0..<length rs])"
    using assms by (metis mset_map)
  then show ?thesis
    by (simp add: map_nth)
qed

lemma col_mean_bounded:
  assumes "rs \<noteq> []" and "in_range (sum_list (map (\<lambda>r. \<bar>r c\<bar>) rs))"
  shows "col_mean c rs = Num (sum_list (map (\<lambda>r. r c) rs) / real (length rs))"
proof -
  let ?xs = "map (\<lambda>r. r c) rs"
  have ab: "map abs ?xs = map (\<lambda>r. \<bar>r c\<bar>) rs"
    by simp
  have b: "in_range (sum_list (map abs ?xs))"
    using assms(2) by (simp only: ab)
  have s: "fsum (map (\<lambda>r. Num (r c)) rs) = Num (sum_list ?xs)"
    using fsum_bounded[OF b] by (simp add: comp_def)
  have n: "1 \<le> real (length rs)"
    using assms(1) by (cases rs) auto
  have "\<bar>sum_list ?xs / real (length rs)\<bar> = \<bar>sum_list ?xs\<bar> / real (length rs)"
    by simp
  also have "\<dots> \<le> \<bar>sum_list ?xs\<bar> / 1"
    using n by (intro divide_left_mono) auto
  also have "\<dots> \<le> sum_list (map abs ?xs)"
    using abs_sum_list_le[of ?xs] by simp
  finally have le: "\<bar>sum_list ?xs / real (length rs)\<bar> \<le> \<bar>sum_list (map abs ?xs)\<bar>"
    by simp
  have "in_range (sum_list ?xs / real (length rs))"
    using in_range_mono[OF b le] .
  then show ?thesis
    using assms(1) s by (simp add: col_mean_def overflow_in_range)
qed

lemma col_mean_perm:
  assumes "mset rs = mset rs'" and "in_range (sum_list (map (\<lambda>r. \<bar>r c\<bar>) rs'))"
  shows "col_mean c rs = col_mean c rs'"
proof (cases "rs' = []")
  case True
  then show ?thesis
    using assms(1) by simp
next
  case False
  have l: "length rs = length rs'"
    using assms(1) by (metis size_mset)
  then have ne: "rs \<noteq> []"
    using False by auto
  have b: "in_range (sum_list (map (\<lambda>r. \<bar>r c\<bar>) rs))"
    using sum_list_perm[OF assms(1), of "\<lambda>r. \<bar>r c\<bar>"] assms(2) by simp
  show ?thesis
    using col_mean_bounded[OF ne b] col_mean_bounded[OF False assms(2)]
      sum_list_perm[OF assms(1), of "\<lambda>r. r c"] l by simp
qed

lemma valid_rng_draw:
  assumes "valid_rng gen" "k \<le> n"
  shows "distinct (draw gen s n k)" "length (draw gen s n k) = k"
    "set (draw gen s n k) \<subseteq> {..<n}"
proof -
  have m: "mset (gen s n) = mset [0..<n]"
    using assms(1) by (simp add: valid_rng_def)
  have d: "distinct (gen s n)"
    using m by (metis distinct_upt mset_eq_imp_distinct_iff)
  have l: "length (gen s n) = n"
    using m by (metis length_upt size_mset diff_zero)
  have st: "set (gen s n) = {..<n}"
    using m by (metis mset_eq_setD atLeast_upt)
  show "distinct (draw gen s n k)"
    using d by (simp add: draw_def)
  show "length (draw gen s n k) = k"
    using l assms(2) by (simp add: draw_def)
  show "set (draw gen s n k) \<subseteq> {..<n}"
    using st set_take_subset[of k "gen s n"] by (simp add: draw_def)
qed

lemma draw_all:
  assumes "mset (gen s n) = mset [0..<n]"
  shows "draw gen s n n = gen s n"
proof -
  have "length (gen s n) = n"
    using assms by (metis length_upt size_mset diff_zero)
  then show ?thesis
    by (simp add: draw_def)
qed

lemma rev_rng_valid: "valid_rng rev_rng"
  by (simp add: valid_rng_def rev_rng_def)

section \<open>The concrete scenario\<close>

lemma col_mean_series5:
  "col_mean ''E'' (rows series5) = Num 4" "col_mean ''E2'' (rows series5) = Num 21"
proof -
  have ne: "rows series5 \<noteq> []"
    by (simp add: series5_def)
  have b: "in_range (sum_list (map (\<lambda>r. \<bar>r ''E''\<bar>) (rows series5)))"
    "in_range (sum_list (map (\<lambda>r. \<bar>r ''E2''\<bar>) (rows series5)))"
    by (simp_all add: series5_def record_of_def in_range_small)
  show "col_mean ''E'' (rows series5) = Num 4"
    using col_mean_bounded[OF ne b(1)] by (simp add: series5_def record_of_def)
  show "col_mean ''E2'' (rows series5) = Num 21"
    using col_mean_bounded[OF ne b(2)] by (simp add: series5_def record_of_def)
qed

lemma mean_series5_perm:
  assumes "mset (gen s 4) = mset [0..<4]"
  shows "sample gen s series5 4 =
           Inr (series5\<lparr>rows := map ((!) (rows series5)) (gen s 4)\<rparr>, Suc s)"
    and "mean (series5\<lparr>rows := map ((!) (rows series5)) (gen s 4)\<rparr>) =
           [(''E'', Num 4), (''E2'', Num 21)]"
proof -
  have l: "length (rows series5) = 4"
    by (simp add: series5_def)
  have d: "draw gen s 4 4 = gen s 4"
    using draw_all[of gen s 4] assms by simp
  show "sample gen s series5 4 =
          Inr (series5\<lparr>rows := map ((!) (rows series5)) (gen s 4)\<rparr>, Suc s)"
    using l d by (simp add: sample_def)
  have m: "mset (map ((!) (rows series5)) (gen s 4)) = mset (rows series5)"
    using mset_map_nth[of "gen s 4" "rows series5"] assms l by simp
  have b: "in_range (sum_list (map (\<lambda>r. \<bar>r ''E''\<bar>) (rows series5)))"
    "in_range (sum_list (map (\<lambda>r. \<bar>r ''E2''\<bar>) (rows series5)))"
    by (simp_all add: series5_def record_of_def in_range_small)
  have c: "col_mean ''E'' (map ((!) (rows series5)) (gen s 4)) = Num 4"
    "col_mean ''E2'' (map ((!) (rows series5)) (gen s 4)) = Num 21"
    using col_mean_perm[OF m b(1)] col_mean_perm[OF m b(2)] col_mean_series5 by simp_all
  have cols: "columns series5 = [''E'', ''E2'']"
    by (simp add: series5_def)
  show "mean (series5\<lparr>rows := map ((!) (rows series5)) (gen s 4)\<rparr>) =
          [(''E'', Num 4), (''E2'', Num 21)]"
    by (simp add: mean_def c cols)
qed

lemma sample_events_series5:
  assumes "mset (gen s 4) = mset [0..<4]"
  shows "sample_events gen s series5 1 1 4 =
           Inr ([(''E'', Num 4), (''E2'', Num 21), (''C'', Num 5)], Suc s)"
  using mean_series5_perm[of gen s] assms
  by (simp add: sample_events_def py_dict_def fsub_def overflow_small)

lemma np_small: "\<bar>x\<bar> \<le> 1000000 \<Longrightarrow> np_mean [Num x] = Num x"
  "\<bar>x\<bar> \<le> 1000000 \<Longrightarrow> np_std [Num x] = Num 0"
  by (simp_all add: np_mean_single np_std_single in_range_small)

text \<open>
  C5. For the series of four records with \<open>E = 1, 3, 5, 7\<close> and \<open>E2 = 1, 9, 25, 49\<close>, a
  block of four, one repeat, system size 1 and beta 1, whatever permutation the random
  source draws: the block has \<open>E = 4\<close>, \<open>E2 = 21\<close> and \<open>C = 21 - 16 = 5\<close>, and \<open>bootstrap\<close>
  returns these as its estimates, each with error 0.
\<close>

theorem bootstrap_concrete_scenario:
  assumes "mset (gen s 4) = mset [0..<4]"
  shows "sample_events gen s series5 1 1 4 =
           Inr ([(''E'', Num 4), (''E2'', Num 21), (''C'', Num 5)], Suc s)
       \<and> bootstrap gen s series5 1 1 4 1 0 =
           Inr ([(''E'', Num 4), (''Eerr'', Num 0), (''E2'', Num 21), (''E2err'', Num 0),
                 (''C'', Num 5), (''Cerr'', Num 0)], Suc s)"
proof -
  have t: "series5\<lparr>rows := iloc_from 0 (rows series5)\<rparr> = series5"
    by (simp add: iloc_from_def)
  have b: "bootstrap gen s series5 1 1 4 1 0 =
           Inr ([(''E'', Num 4), (''Eerr'', Num 0), (''E2'', Num 21), (''E2err'', Num 0),
                 (''C'', Num 5), (''Cerr'', Num 0)], Suc s)"
    using sample_events_series5[of gen s] assms
    by (simp add: bootstrap_def t append_obs_def estimate_obs_def np_small)
  show ?thesis
    using sample_events_series5[of gen s] assms b by simp
qed

theorem bootstrap_concrete_scenario_witness:
  "mset (rev_rng 0 4) = mset [0..<4]
   \<and> sample_events rev_rng 0 series5 1 1 4 =
           Inr ([(''E'', Num 4), (''E2'', Num 21), (''C'', Num 5)], Suc 0)
   \<and> bootstrap rev_rng 0 series5 1 1 4 1 0 =
           Inr ([(''E'', Num 4), (''Eerr'', Num 0), (''E2'', Num 21), (''E2err'', Num 0),
                 (''C'', Num 5), (''Cerr'', Num 0)], Suc 0)"
proof -
  have h: "mset (rev_rng 0 4) = mset [0..<4]"
    by (simp add: rev_rng_def)
  show ?thesis
    using h bootstrap_concrete_scenario[of rev_rng 0] by simp
qed

section \<open>The entries of a block sample\<close>

lemma sample_columns: "sample gen s df n = Inr (smp, s') \<Longrightarrow> columns smp = columns df"
  by (auto simp: sample_def split: if_splits)

lemma sample_events_Inr:
  "sample_events gen s df system_size beta sb = Inr (d, s') \<Longrightarrow>
     \<exists>smp. sample gen s df sb = Inr (smp, s')"
  by (auto simp: sample_events_def Let_def split: sum.splits)


lemma sample_events_lookup:
  assumes "sample gen s df sb = Inr (smp, s')"
  shows "\<exists>d. sample_events gen s df system_size beta sb = Inr (d, s') \<and>
    (\<forall>k. map_of d k =
      (if k = ''X'' \<and> ''M'' \<in> set (columns df) \<and> ''M2'' \<in> set (columns df)
         then Some (fmul (fmul (Num beta) (Num (real_of_int system_size)))
                 (fsub (col_mean ''M2'' (rows smp))
                    (fmul (col_mean ''M'' (rows smp)) (col_mean ''M'' (rows smp)))))
       else if k = ''C'' \<and> ''E'' \<in> set (columns df) \<and> ''E2'' \<in> set (columns df)
         then Some (fmul (fmul (fmul (Num beta) (Num beta)) (Num (real_of_int system_size)))
                 (fsub (col_mean ''E2'' (rows smp))
                    (fmul (col_mean ''E'' (rows smp)) (col_mean ''E'' (rows smp)))))
       else if k \<in> set (columns df) then Some (col_mean k (rows smp)) else None))"
  using assms sample_columns[OF assms]
  by (auto simp: sample_events_def Let_def map_of_mean update_conv')

lemma keys_dom: "keys d = dom (map_of d)"
  by (simp add: keys_def dom_map_of_conv_image_fst)

lemma sample_events_keys:
  assumes "sample_events gen s df system_size beta sb = Inr (d, s')"
  shows "keys d = set (columns df)
          \<union> (if ''E'' \<in> set (columns df) \<and> ''E2'' \<in> set (columns df) then {''C''} else {})
          \<union> (if ''M'' \<in> set (columns df) \<and> ''M2'' \<in> set (columns df) then {''X''} else {})"
proof -
  obtain smp where smp: "sample gen s df sb = Inr (smp, s')"
    using sample_events_Inr[OF assms] by blast
  obtain d' where d': "sample_events gen s df system_size beta sb = Inr (d', s')"
    and lk: "\<forall>k. map_of d' k =
      (if k = ''X'' \<and> ''M'' \<in> set (columns df) \<and> ''M2'' \<in> set (columns df)
         then Some (fmul (fmul (Num beta) (Num (real_of_int system_size)))
                 (fsub (col_mean ''M2'' (rows smp))
                    (fmul (col_mean ''M'' (rows smp)) (col_mean ''M'' (rows smp)))))
       else if k = ''C'' \<and> ''E'' \<in> set (columns df) \<and> ''E2'' \<in> set (columns df)
         then Some (fmul (fmul (fmul (Num beta) (Num beta)) (Num (real_of_int system_size)))
                 (fsub (col_mean ''E2'' (rows smp))
                    (fmul (col_mean ''E'' (rows smp)) (col_mean ''E'' (rows smp)))))
       else if k \<in> set (columns df) then Some (col_mean k (rows smp)) else None)"
    using sample_events_lookup[OF smp, of system_size beta] by blast
  have e: "d' = d"
    using assms d' by simp
  show ?thesis
    unfolding keys_dom dom_def using lk e by (auto split: if_splits)
qed

text \<open>
  C10, as amended. The sample that \<open>sample_events\<close> returns maps every raw column key to
  the arithmetic mean of the drawn rows for that key, except a raw column named \<open>C\<close>
  when \<open>E\<close> and \<open>E2\<close> are both columns and a raw column named \<open>X\<close> when \<open>M\<close> and \<open>M2\<close>
  are: these two entries hold the derived heat capacity and susceptibility. The keys of
  the sample are the raw column keys, \<open>C\<close> when \<open>E\<close> and \<open>E2\<close> are present, and \<open>X\<close> when
  \<open>M\<close> and \<open>M2\<close> are.
\<close>

theorem sample_events_entries:
  assumes "sample_events gen s df system_size beta sb = Inr (d, s')"
  shows "\<exists>smp. sample gen s df sb = Inr (smp, s') \<and>
    (\<forall>k. map_of d k =
      (if k = ''X'' \<and> ''M'' \<in> set (columns df) \<and> ''M2'' \<in> set (columns df)
         then Some (fmul (fmul (Num beta) (Num (real_of_int system_size)))
                 (fsub (col_mean ''M2'' (rows smp))
                    (fmul (col_mean ''M'' (rows smp)) (col_mean ''M'' (rows smp)))))
       else if k = ''C'' \<and> ''E'' \<in> set (columns df) \<and> ''E2'' \<in> set (columns df)
         then Some (fmul (fmul (fmul (Num beta) (Num beta)) (Num (real_of_int system_size)))
                 (fsub (col_mean ''E2'' (rows smp))
                    (fmul (col_mean ''E'' (rows smp)) (col_mean ''E'' (rows smp)))))
       else if k \<in> set (columns df) then Some (col_mean k (rows smp)) else None))
    \<and> keys d = set (columns df)
          \<union> (if ''E'' \<in> set (columns df) \<and> ''E2'' \<in> set (columns df) then {''C''} else {})
          \<union> (if ''M'' \<in> set (columns df) \<and> ''M2'' \<in> set (columns df) then {''X''} else {})"
proof -
  obtain smp where smp: "sample gen s df sb = Inr (smp, s')"
    using sample_events_Inr[OF assms] by blast
  obtain d' where d': "sample_events gen s df system_size beta sb = Inr (d', s')"
    and lk: "\<forall>k. map_of d' k =
      (if k = ''X'' \<and> ''M'' \<in> set (columns df) \<and> ''M2'' \<in> set (columns df)
         then Some (fmul (fmul (Num beta) (Num (real_of_int system_size)))
                 (fsub (col_mean ''M2'' (rows smp))
                    (fmul (col_mean ''M'' (rows smp)) (col_mean ''M'' (rows smp)))))
       else if k = ''C'' \<and> ''E'' \<in> set (columns df) \<and> ''E2'' \<in> set (columns df)
         then Some (fmul (fmul (fmul (Num beta) (Num beta)) (Num (real_of_int system_size)))
                 (fsub (col_mean ''E2'' (rows smp))
                    (fmul (col_mean ''E'' (rows smp)) (col_mean ''E'' (rows smp)))))
       else if k \<in> set (columns df) then Some (col_mean k (rows smp)) else None)"
    using sample_events_lookup[OF smp, of system_size beta] by blast
  have e: "d' = d"
    using assms d' by simp
  show ?thesis
    using smp lk e sample_events_keys[OF assms] by blast
qed

theorem sample_events_entries_witness:
  "sample_events rev_rng 0 series5 1 1 4 =
     Inr ([(''E'', Num 4), (''E2'', Num 21), (''C'', Num 5)], 1)
   \<and> (\<exists>smp. sample rev_rng 0 series5 4 = Inr (smp, 1)
        \<and> col_mean ''E'' (rows smp) = Num 4 \<and> col_mean ''E2'' (rows smp) = Num 21
        \<and> keys [(''E'', Num 4), (''E2'', Num 21), (''C'', Num (5::real))] = {''E'', ''E2'', ''C''})"
proof -
  have m: "mset (rev_rng 0 4) = mset [0..<4]" by (simp add: rev_rng_def)
  have e: "sample_events rev_rng 0 series5 1 1 4 =
     Inr ([(''E'', Num 4), (''E2'', Num 21), (''C'', Num 5)], 1)"
    using sample_events_series5[of rev_rng 0] m by simp
  obtain smp where s: "sample rev_rng 0 series5 4 = Inr (smp, 1)"
    and l: "\<forall>k. map_of [(''E'', Num 4), (''E2'', Num 21), (''C'', Num 5)] k =
      (if k = ''X'' \<and> ''M'' \<in> set (columns series5) \<and> ''M2'' \<in> set (columns series5)
         then Some (fmul (fmul (Num 1) (Num (real_of_int 1)))
                 (fsub (col_mean ''M2'' (rows smp))
                    (fmul (col_mean ''M'' (rows smp)) (col_mean ''M'' (rows smp)))))
       else if k = ''C'' \<and> ''E'' \<in> set (columns series5) \<and> ''E2'' \<in> set (columns series5)
         then Some (fmul (fmul (fmul (Num 1) (Num 1)) (Num (real_of_int 1)))
                 (fsub (col_mean ''E2'' (rows smp))
                    (fmul (col_mean ''E'' (rows smp)) (col_mean ''E'' (rows smp)))))
       else if k \<in> set (columns series5) then Some (col_mean k (rows smp)) else None)"
    and k: "keys [(''E'', Num 4), (''E2'', Num 21), (''C'', Num 5)] = set (columns series5)
          \<union> (if ''E'' \<in> set (columns series5) \<and> ''E2'' \<in> set (columns series5) then {''C''} else {})
          \<union> (if ''M'' \<in> set (columns series5) \<and> ''M2'' \<in> set (columns series5) then {''X''} else {})"
    using sample_events_entries[OF e] by blast
  have c: "columns series5 = [''E'', ''E2'']" by (simp add: series5_def)
  have "col_mean ''E'' (rows smp) = Num 4" using l[rule_format, of "''E''"] c by simp
  moreover have "col_mean ''E2'' (rows smp) = Num 21" using l[rule_format, of "''E2''"] c by simp
  moreover have "keys [(''E'', Num 4), (''E2'', Num 21), (''C'', Num (5::real))] = {''E'', ''E2'', ''C''}"
    using k c by auto
  ultimately show ?thesis using e s by blast
qed

text \<open>
  C10 as stated fails for a series that has a raw column named \<open>C\<close> beside \<open>E\<close> and
  \<open>E2\<close>: the mean of the raw column is 7, the sample holds the derived value 2.
\<close>

theorem sample_events_overwrites_C:
  "sample_events rev_rng 0 frame_EC 1 1 1 =
     Inr ([(''E'', Num 1), (''E2'', Num 3), (''C'', Num 2)], 1)
   \<and> mean frame_EC = [(''E'', Num 1), (''E2'', Num 3), (''C'', Num 7)]"
  by (simp add: sample_events_def sample_def draw_def rev_rng_def frame_EC_def mean_def
      col_mean_def fsum_def fsub_def overflow_small py_dict_def record_of_def)

section \<open>Failures of bootstrap\<close>





lemma bootstrap_no_repeats:
  "repeat < 1 \<Longrightarrow>
     bootstrap gen s file system_size beta sampling_block repeat thermalization = Inr ([], s)"
  by (simp add: bootstrap_def)


section \<open>The estimates of bootstrap\<close>

lemma update_fresh: "k \<notin> fst ` set acc \<Longrightarrow> AList.update k v acc = acc @ [(k, v)]"
  by (induction acc) auto

lemma fold_append_obs_fresh:
  "distinct (map fst acc @ map fst d) \<Longrightarrow>
     fold append_obs d acc = acc @ map (\<lambda>(k, v). (k, [v])) d"
proof (induction d arbitrary: acc)
  case Nil
  then show ?case by simp
next
  case (Cons a d)
  obtain k v where a: "a = (k, v)" by (cases a)
  have f: "k \<notin> fst ` set acc" using Cons.prems a by auto
  then have n: "map_of acc k = None" by (simp add: map_of_eq_None_iff)
  have u: "append_obs a acc = acc @ [(k, [v])]"
    using update_fresh[OF f] n a by (simp add: append_obs_def)
  show ?case using Cons.prems a u Cons.IH[of "acc @ [(k, [v])]"] by auto
qed

lemma estimate_obs_untouched:
  "k \<notin> fst ` set obs \<Longrightarrow> k \<notin> (\<lambda>n. n @ ''err'') ` fst ` set obs \<Longrightarrow>
     map_of (fold estimate_obs obs acc) k = map_of acc k"
  by (induction obs arbitrary: acc) (auto simp: estimate_obs_def update_conv')

lemma estimate_obs_lookup:
  assumes "distinct (map fst obs)"
    and "\<forall>a\<in>fst ` set obs. \<forall>b\<in>fst ` set obs. a \<noteq> b @ ''err''"
    and "(name, vals) \<in> set obs"
  shows "map_of (fold estimate_obs obs acc) name = Some (np_mean vals)
       \<and> map_of (fold estimate_obs obs acc) (name @ ''err'') = Some (np_std vals)"
  using assms
proof (induction obs arbitrary: acc)
  case Nil
  then show ?case by simp
next
  case (Cons a obs)
  obtain n vs where a: "a = (n, vs)" by (cases a)
  show ?case
  proof (cases "(name, vals) = a")
    case True
    have n1: "name \<notin> fst ` set obs" using Cons.prems(1) True by force
    have n2: "name \<notin> (\<lambda>n. n @ ''err'') ` fst ` set obs" using Cons.prems(2) True by force
    have n3: "name @ ''err'' \<notin> fst ` set obs" using Cons.prems(2) True by force
    have n4: "name @ ''err'' \<notin> (\<lambda>n. n @ ''err'') ` fst ` set obs" using n1 by auto
    have f: "fold estimate_obs (a # obs) acc = fold estimate_obs obs (estimate_obs a acc)"
      by simp
    have h: "map_of (estimate_obs a acc) name = Some (np_mean vals)"
      "map_of (estimate_obs a acc) (name @ ''err'') = Some (np_std vals)"
      using True a by (auto simp: estimate_obs_def update_conv')
    show ?thesis
      unfolding f
      using h estimate_obs_untouched[OF n1 n2, of "estimate_obs a acc"]
        estimate_obs_untouched[OF n3 n4, of "estimate_obs a acc"]
      by simp
  next
    case False
    then have m: "(name, vals) \<in> set obs" using Cons.prems(3) by simp
    have d: "distinct (map fst obs)" using Cons.prems(1) by simp
    have c: "\<forall>a\<in>fst ` set obs. \<forall>b\<in>fst ` set obs. a \<noteq> b @ ''err''"
      using Cons.prems(2) by simp
    show ?thesis using Cons.IH[OF d c m] by simp
  qed
qed

lemma keys_estimate_obs:
  "keys (fold estimate_obs obs acc) = keys acc \<union> fst ` set obs \<union> (\<lambda>n. n @ ''err'') ` fst ` set obs"
proof (induction obs arbitrary: acc)
  case Nil
  then show ?case by simp
next
  case (Cons a obs)
  obtain n vs where a: "a = (n, vs)" by (cases a)
  have "keys (estimate_obs a acc) = keys acc \<union> {n, n @ ''err''}"
    unfolding keys_dom using a by (auto simp: estimate_obs_def update_conv')
  then show ?case using Cons.IH[of "estimate_obs a acc"] a by auto
qed

lemma distinct_sample_events:
  assumes "sample_events gen s df system_size beta sb = Inr (d, s')"
  shows "distinct (map fst d)"
  using assms
  by (auto simp: sample_events_def Let_def distinct_update distinct_py_dict
      split: sum.splits option.splits)

lemma map_of_append_obs:
  "distinct (map fst d) \<Longrightarrow>
     map_of (fold append_obs d obs) name =
       (case map_of d name of
          None \<Rightarrow> map_of obs name
        | Some v \<Rightarrow> Some ((case map_of obs name of None \<Rightarrow> [] | Some vals \<Rightarrow> vals) @ [v]))"
proof (induction d arbitrary: obs)
  case Nil
  then show ?case by simp
next
  case (Cons a d)
  obtain k v where a: "a = (k, v)"
    by (cases a)
  have nk: "map_of d k = None"
    using Cons.prems a by (simp add: map_of_eq_None_iff)
  have dd: "distinct (map fst d)"
    using Cons.prems by simp
  have m: "map_of (append_obs a obs) =
      (map_of obs)(k \<mapsto> (case map_of obs k of None \<Rightarrow> [] | Some vals \<Rightarrow> vals) @ [v])"
    using a by (simp add: append_obs_def update_conv')
  show ?case
    using Cons.IH[OF dd, of "append_obs a obs"] a nk m by (auto split: option.splits)
qed

lemma distinct_append_obs:
  "distinct (map fst obs) \<Longrightarrow> distinct (map fst (fold append_obs d obs))"
  by (induction d arbitrary: obs) (auto simp: append_obs_def distinct_update)

lemma keys_append_obs: "keys (fold append_obs d obs) = keys obs \<union> keys d"
proof (induction d arbitrary: obs)
  case Nil
  then show ?case by (simp add: keys_def)
next
  case (Cons a d)
  obtain k v where a: "a = (k, v)"
    by (cases a)
  have "keys (append_obs a obs) = insert k (keys obs)"
    using a by (simp add: append_obs_def keys_def dom_update)
  then show ?case
    using Cons.IH[of "append_obs a obs"] a by (auto simp: keys_def)
qed

lemma sample_events_state:
  "sample_events gen s df system_size beta sb = Inr (d, s') \<Longrightarrow> s' = Suc s"
  by (auto simp: sample_events_def sample_def Let_def split: sum.splits if_splits)

lemma sample_events_same_keys:
  assumes "sample_events gen s df system_size beta sb = Inr (d, s1)"
    and "sample_events gen t df system_size beta sb = Inr (d', t1)"
  shows "keys d' = keys d"
  using sample_events_keys[OF assms(1)] sample_events_keys[OF assms(2)] by simp

lemma block_value_in_range:
  assumes "sample_events gen s df system_size beta sb = Inr (d, s')"
    and "map_of d name = Some (Num x)"
  shows "in_range x"
proof -
  obtain smp where smp: "sample gen s df sb = Inr (smp, s')"
    using sample_events_Inr[OF assms(1)] by blast
  obtain d' where d': "sample_events gen s df system_size beta sb = Inr (d', s')"
    and lk: "\<forall>k. map_of d' k =
      (if k = ''X'' \<and> ''M'' \<in> set (columns df) \<and> ''M2'' \<in> set (columns df)
         then Some (fmul (fmul (Num beta) (Num (real_of_int system_size)))
                 (fsub (col_mean ''M2'' (rows smp))
                    (fmul (col_mean ''M'' (rows smp)) (col_mean ''M'' (rows smp)))))
       else if k = ''C'' \<and> ''E'' \<in> set (columns df) \<and> ''E2'' \<in> set (columns df)
         then Some (fmul (fmul (fmul (Num beta) (Num beta)) (Num (real_of_int system_size)))
                 (fsub (col_mean ''E2'' (rows smp))
                    (fmul (col_mean ''E'' (rows smp)) (col_mean ''E'' (rows smp)))))
       else if k \<in> set (columns df) then Some (col_mean k (rows smp)) else None)"
    using sample_events_lookup[OF smp, of system_size beta] by blast
  have e: "d' = d"
    using assms(1) d' by simp
  have cm: "in_range y" if "col_mean c rs = Num y" for c rs y
    using that fdiv_count_Num[of "fsum (map (\<lambda>r. Num (r c)) rs)" "length rs" y]
    by (auto simp: col_mean_def split: if_splits)
  have fm: "in_range y" if "fmul a b = Num y" for a b y
    using fmul_Num[OF that] by blast
  consider (x) "Num x = fmul (fmul (Num beta) (Num (real_of_int system_size)))
                 (fsub (col_mean ''M2'' (rows smp))
                    (fmul (col_mean ''M'' (rows smp)) (col_mean ''M'' (rows smp))))"
    | (c) "Num x = fmul (fmul (fmul (Num beta) (Num beta)) (Num (real_of_int system_size)))
                 (fsub (col_mean ''E2'' (rows smp))
                    (fmul (col_mean ''E'' (rows smp)) (col_mean ''E'' (rows smp))))"
    | (m) "Num x = col_mean name (rows smp)"
    using lk[rule_format, of name] e assms(2) by (simp split: if_splits)
  then show ?thesis
  proof cases
    case x
    then show ?thesis using fm by metis
  next
    case c
    then show ?thesis using fm by metis
  next
    case m
    then show ?thesis using cm by metis
  qed
qed

lemma bootstrap_loop_collects:
  assumes "bootstrap_loop gen df system_size beta sb k s obs = Inr (obs', s')"
    and "distinct (map fst obs)"
    and "sample_events gen s0 df system_size beta sb = Inr (d0, s1)"
    and "name \<in> keys d0"
  shows "distinct (map fst obs')
       \<and> (0 < k \<longrightarrow> name \<in> keys obs')
       \<and> (\<exists>vals. map Some vals
                   = map (\<lambda>i. block_value gen df system_size beta sb name (s + i)) [0..<k]
             \<and> (case map_of obs' name of None \<Rightarrow> [] | Some vs \<Rightarrow> vs)
                 = (case map_of obs name of None \<Rightarrow> [] | Some vs \<Rightarrow> vs) @ vals)"
  using assms(1,2)
proof (induction k arbitrary: s obs)
  case 0
  then show ?case by simp
next
  case (Suc k)
  obtain d s2 where d: "sample_events gen s df system_size beta sb = Inr (d, s2)"
    and r: "bootstrap_loop gen df system_size beta sb k s2 (fold append_obs d obs) = Inr (obs', s')"
    using Suc.prems(1) by (auto split: sum.splits)
  have s2: "s2 = Suc s"
    using sample_events_state[OF d] .
  have dd: "distinct (map fst d)"
    using distinct_sample_events[OF d] .
  have kd: "name \<in> keys d"
    using sample_events_same_keys[OF assms(3) d] assms(4) by simp
  then obtain v where v: "map_of d name = Some v"
    by (auto simp: keys_dom)
  have bv: "block_value gen df system_size beta sb name s = Some v"
    using d v by (simp add: block_value_def)
  let ?obs1 = "fold append_obs d obs"
  have d1: "distinct (map fst ?obs1)"
    using distinct_append_obs[OF Suc.prems(2)] .
  have l1: "map_of ?obs1 name
      = Some ((case map_of obs name of None \<Rightarrow> [] | Some vs \<Rightarrow> vs) @ [v])"
    using map_of_append_obs[OF dd, of obs name] v by simp
  obtain vals where ih1: "distinct (map fst obs')"
    and ih2: "0 < k \<longrightarrow> name \<in> keys obs'"
    and ih3: "map Some vals
        = map (\<lambda>i. block_value gen df system_size beta sb name (s2 + i)) [0..<k]"
    and ih4: "(case map_of obs' name of None \<Rightarrow> [] | Some vs \<Rightarrow> vs)
        = (case map_of ?obs1 name of None \<Rightarrow> [] | Some vs \<Rightarrow> vs) @ vals"
    using Suc.IH[OF r d1] by blast
  have k0: "name \<in> keys obs'"
  proof (cases k)
    case 0
    then have "obs' = ?obs1"
      using r by simp
    then show ?thesis
      using l1 by (auto simp: keys_dom)
  next
    case (Suc j)
    then show ?thesis
      using ih2 by simp
  qed
  have m: "map Some (v # vals)
      = map (\<lambda>i. block_value gen df system_size beta sb name (s + i)) [0..<Suc k]"
    using ih3 bv s2 by (simp add: map_upt_Suc del: upt_Suc)
  have a: "(case map_of obs' name of None \<Rightarrow> [] | Some vs \<Rightarrow> vs)
      = (case map_of obs name of None \<Rightarrow> [] | Some vs \<Rightarrow> vs) @ (v # vals)"
    using ih4 l1 by simp
  show ?case
    using ih1 k0 m a by blast
qed

lemma keys_bootstrap_loop_same:
  assumes "bootstrap_loop gen df system_size beta sb k s obs = Inr (obs', s')"
    and "sample_events gen s0 df system_size beta sb = Inr (d0, s1)"
  shows "keys obs' \<subseteq> keys obs \<union> keys d0"
  using assms(1)
proof (induction k arbitrary: s obs)
  case 0
  then show ?case by auto
next
  case (Suc k)
  obtain d s2 where d: "sample_events gen s df system_size beta sb = Inr (d, s2)"
    and r: "bootstrap_loop gen df system_size beta sb k s2 (fold append_obs d obs) = Inr (obs', s')"
    using Suc.prems by (auto split: sum.splits)
  have "keys d = keys d0"
    using sample_events_same_keys[OF assms(2) d] .
  then show ?case
    using Suc.IH[OF r] by (auto simp: keys_append_obs)
qed

text \<open>
  C6, as amended. The estimate of an observable is \<open>np.mean\<close> of the values collected for
  it over the repeats, and its error is \<open>np.std\<close> of them: where these are finite, the
  arithmetic mean and the population standard deviation (divisor \<open>n\<close>) of the collected
  values. This holds for every repeat count of at least 1, provided no observable's name
  is another observable's name followed by \<open>err\<close>. With one repeat, an observable whose
  block value is a finite number has that value as its estimate and 0 as its error.
\<close>

theorem bootstrap_estimates:
  assumes "bootstrap gen s file system_size beta sampling_block repeat thermalization
             = Inr (estimates, s')"
    and "sample_events gen s (file\<lparr>rows := iloc_from thermalization (rows file)\<rparr>)
           system_size beta sampling_block = Inr (d, s1)"
    and "\<forall>a\<in>keys d. \<forall>b\<in>keys d. a \<noteq> b @ ''err''"
    and "map_of d name = Some v"
    and "0 < repeat"
  shows "\<exists>vals.
           map Some vals
             = map (\<lambda>i. block_value gen (file\<lparr>rows := iloc_from thermalization (rows file)\<rparr>)
                          system_size beta sampling_block name (s + i)) [0..<nat repeat]
         \<and> map_of estimates name = Some (np_mean vals)
         \<and> map_of estimates (name @ ''err'') = Some (np_std vals)
         \<and> (\<forall>m. np_mean vals = Num m \<longrightarrow>
               (\<exists>xs. vals = map Num xs \<and> m = sum_list xs / real (length xs)))
         \<and> (\<forall>sd. np_std vals = Num sd \<longrightarrow>
               (\<exists>xs. vals = map Num xs
                 \<and> sd = sqrt (sum_list (map (\<lambda>x. (x - sum_list xs / real (length xs)) ^ 2) xs)
                            / real (length xs))))
         \<and> (\<forall>x. repeat = 1 \<and> v = Num x \<longrightarrow>
               map_of estimates name = Some (Num x)
               \<and> map_of estimates (name @ ''err'') = Some (Num 0))"
proof -
  let ?df = "file\<lparr>rows := iloc_from thermalization (rows file)\<rparr>"
  obtain obs where loop: "bootstrap_loop gen ?df system_size beta sampling_block (nat repeat) s []
        = Inr (obs, s')"
    and est: "estimates = fold estimate_obs obs []"
    using assms(1) by (auto simp: bootstrap_def Let_def split: sum.splits)
  have nk: "name \<in> keys d"
    using assms(4) by (auto simp: keys_dom)
  have d0: "distinct (map fst ([]::fval list dict))"
    by simp
  obtain vals where dobs: "distinct (map fst obs)"
    and kin: "0 < nat repeat \<longrightarrow> name \<in> keys obs"
    and vs: "map Some vals
        = map (\<lambda>i. block_value gen ?df system_size beta sampling_block name (s + i))
            [0..<nat repeat]"
    and lk: "(case map_of obs name of None \<Rightarrow> [] | Some vs \<Rightarrow> vs) = vals"
    using bootstrap_loop_collects[OF loop d0 assms(2) nk] by auto
  have "name \<in> keys obs"
    using kin assms(5) by simp
  then obtain vs' where "map_of obs name = Some vs'"
    by (auto simp: keys_dom)
  then have mo: "map_of obs name = Some vals"
    using lk by simp
  then have mem: "(name, vals) \<in> set obs"
    by (rule map_of_SomeD)
  have sub: "keys obs \<subseteq> keys d"
    using keys_bootstrap_loop_same[OF loop assms(2)] by (simp add: keys_def)
  have col: "\<forall>a\<in>fst ` set obs. \<forall>b\<in>fst ` set obs. a \<noteq> b @ ''err''"
  proof (intro ballI)
    fix a b
    assume "a \<in> fst ` set obs" "b \<in> fst ` set obs"
    then have "a \<in> keys d" "b \<in> keys d"
      using sub by (auto simp: keys_def)
    then show "a \<noteq> b @ ''err''"
      using assms(3) by blast
  qed
  have e1: "map_of estimates name = Some (np_mean vals)"
    and e2: "map_of estimates (name @ ''err'') = Some (np_std vals)"
    using estimate_obs_lookup[OF dobs col mem, of "[]"] est by simp_all
  have f1: "\<forall>m. np_mean vals = Num m \<longrightarrow>
               (\<exists>xs. vals = map Num xs \<and> m = sum_list xs / real (length xs))"
    using np_mean_Num by blast
  have f2: "\<forall>sd. np_std vals = Num sd \<longrightarrow>
               (\<exists>xs. vals = map Num xs
                 \<and> sd = sqrt (sum_list (map (\<lambda>x. (x - sum_list xs / real (length xs)) ^ 2) xs)
                            / real (length xs)))"
    using np_std_Num by blast
  have f3: "map_of estimates name = Some (Num x)
            \<and> map_of estimates (name @ ''err'') = Some (Num 0)"
    if one: "repeat = 1" and vx: "v = Num x" for x
  proof -
    have "block_value gen ?df system_size beta sampling_block name s = Some v"
      using assms(2,4) by (simp add: block_value_def)
    then have "map Some vals = [Some v]"
      using vs one by simp
    then have "vals = [Num x]"
      using vx by (cases vals) auto
    moreover have "in_range x"
      using block_value_in_range[OF assms(2)] assms(4) vx by simp
    ultimately show ?thesis
      using e1 e2 by (simp add: np_mean_single np_std_single)
  qed
  show ?thesis
    using vs e1 e2 f1 f2 f3 by blast
qed

lemma sqrt_16: "sqrt 16 = 4"
  by (rule real_sqrt_unique) simp_all

lemma draw_shift_rng:
  "draw shift_rng 0 4 (Suc 0) = [0]" "draw shift_rng (Suc 0) 4 (Suc 0) = [1]"
  by code_simp+

lemma sample_shift:
  "sample shift_rng 0 series5 1 =
     Inr (series5\<lparr>rows := [record_of [(''E'', 1), (''E2'', 1)]]\<rparr>, Suc 0)"
  "sample shift_rng (Suc 0) series5 1 =
     Inr (series5\<lparr>rows := [record_of [(''E'', 3), (''E2'', 9)]]\<rparr>, Suc (Suc 0))"
proof -
  have l: "length (rows series5) = 4"
    by (simp add: series5_def)
  have r: "rows series5 ! 0 = record_of [(''E'', 1), (''E2'', 1)]"
    "rows series5 ! 1 = record_of [(''E'', 3), (''E2'', 9)]"
    by (simp_all add: series5_def)
  show "sample shift_rng 0 series5 1 =
     Inr (series5\<lparr>rows := [record_of [(''E'', 1), (''E2'', 1)]]\<rparr>, Suc 0)"
    by (simp add: sample_def l draw_shift_rng r)
  show "sample shift_rng (Suc 0) series5 1 =
     Inr (series5\<lparr>rows := [record_of [(''E'', 3), (''E2'', 9)]]\<rparr>, Suc (Suc 0))"
    using r(2) by (simp add: sample_def l draw_shift_rng)
qed

lemma sample_events_shift:
  "sample_events shift_rng 0 series5 1 1 1 =
     Inr ([(''E'', Num 1), (''E2'', Num 1), (''C'', Num 0)], Suc 0)"
  "sample_events shift_rng (Suc 0) series5 1 1 1 =
     Inr ([(''E'', Num 3), (''E2'', Num 9), (''C'', Num 0)], Suc (Suc 0))"
proof -
  have c: "columns series5 = [''E'', ''E2'']"
    by (simp add: series5_def)
  show "sample_events shift_rng 0 series5 1 1 1 =
     Inr ([(''E'', Num 1), (''E2'', Num 1), (''C'', Num 0)], Suc 0)"
    by (simp add: sample_events_def sample_shift c mean_def col_mean_def
        fsum_def fsub_def overflow_small py_dict_def record_of_def)
  show "sample_events shift_rng (Suc 0) series5 1 1 1 =
     Inr ([(''E'', Num 3), (''E2'', Num 9), (''C'', Num 0)], Suc (Suc 0))"
    by (simp add: sample_events_def sample_shift c mean_def col_mean_def
        fsum_def fsub_def overflow_small py_dict_def record_of_def)
qed

lemma series5_untrimmed: "series5\<lparr>rows := iloc_from 0 (rows series5)\<rparr> = series5"
  by (simp add: iloc_from_def)

lemma np_two:
  "np_mean [Num 1, Num 3] = Num 2" "np_std [Num 1, Num 3] = Num 1"
  "np_mean [Num 1, Num 9] = Num 5" "np_std [Num 1, Num 9] = Num 4"
  "np_mean [Num 0, Num 0] = Num 0" "np_std [Num 0, Num 0] = Num 0"
  by (simp_all add: np_std_def np_mean_def fsum_def fsub_def overflow_small sqrt_16)

lemma bootstrap_shift:
  "bootstrap shift_rng 0 series5 1 1 1 2 0 =
     Inr ([(''E'', Num 2), (''Eerr'', Num 1), (''E2'', Num 5), (''E2err'', Num 4),
           (''C'', Num 0), (''Cerr'', Num 0)], 2)"
proof -
  have l: "bootstrap_loop shift_rng series5 1 1 1 (Suc (Suc 0)) 0 [] =
      Inr ([(''E'', [Num 1, Num 3]), (''E2'', [Num 1, Num 9]), (''C'', [Num 0, Num 0])],
           Suc (Suc 0))"
    by (simp add: sample_events_shift append_obs_def)
  have n: "nat 2 = Suc (Suc 0)"
    by simp
  show ?thesis
    unfolding bootstrap_def Let_def series5_untrimmed n l
    by (simp add: estimate_obs_def np_two)
qed

lemma bootstrap_series5:
  "bootstrap rev_rng 0 series5 1 1 4 1 0 =
     Inr ([(''E'', Num 4), (''Eerr'', Num 0), (''E2'', Num 21), (''E2err'', Num 0),
           (''C'', Num 5), (''Cerr'', Num 0)], 1)"
proof -
  have m: "mset (rev_rng 0 4) = mset [0..<4]"
    by (simp add: rev_rng_def)
  show ?thesis
    using sample_events_series5[of rev_rng 0] m
    by (simp add: bootstrap_def series5_untrimmed append_obs_def estimate_obs_def np_small)
qed

theorem bootstrap_estimates_witness:
  "bootstrap shift_rng 0 series5 1 1 1 2 0 =
     Inr ([(''E'', Num 2), (''Eerr'', Num 1), (''E2'', Num 5), (''E2err'', Num 4),
           (''C'', Num 0), (''Cerr'', Num 0)], 2)
   \<and> (\<exists>vals. map Some vals
                = map (\<lambda>i. block_value shift_rng (series5\<lparr>rows := iloc_from 0 (rows series5)\<rparr>)
                             1 1 1 ''E'' (0 + i)) [0..<nat 2]
          \<and> vals = [Num 1, Num 3]
          \<and> np_mean vals = Num ((1 + 3) / 2)
          \<and> np_std vals = Num (sqrt (((1 - 2) ^ 2 + (3 - 2) ^ 2) / 2)))
   \<and> bootstrap rev_rng 0 series5 1 1 4 1 0 =
     Inr ([(''E'', Num 4), (''Eerr'', Num 0), (''E2'', Num 21), (''E2err'', Num 0),
           (''C'', Num 5), (''Cerr'', Num 0)], 1)
   \<and> map_of [(''E'', Num 4), (''Eerr'', Num 0), (''E2'', Num 21), (''E2err'', Num 0),
           (''C'', Num 5), (''Cerr'', Num (0::real))] ''C'' = Some (Num 5)
   \<and> map_of [(''E'', Num 4), (''Eerr'', Num 0), (''E2'', Num 21), (''E2err'', Num 0),
           (''C'', Num 5), (''Cerr'', Num (0::real))] (''C'' @ ''err'') = Some (Num 0)"
proof -
  have k2: "\<forall>a\<in>keys [(''E'', Num 1), (''E2'', Num 1), (''C'', Num (0::real))].
      \<forall>b\<in>keys [(''E'', Num 1), (''E2'', Num 1), (''C'', Num (0::real))]. a \<noteq> b @ ''err''"
    by (simp add: keys_def)
  have k1: "\<forall>a\<in>keys [(''E'', Num 4), (''E2'', Num 21), (''C'', Num (5::real))].
      \<forall>b\<in>keys [(''E'', Num 4), (''E2'', Num 21), (''C'', Num (5::real))]. a \<noteq> b @ ''err''"
    by (simp add: keys_def)
  have s2: "sample_events shift_rng 0 (series5\<lparr>rows := iloc_from 0 (rows series5)\<rparr>) 1 1 1
      = Inr ([(''E'', Num 1), (''E2'', Num 1), (''C'', Num 0)], Suc 0)"
    using sample_events_shift(1) by (simp add: series5_untrimmed)
  have m: "mset (rev_rng 0 4) = mset [0..<4]"
    by (simp add: rev_rng_def)
  have s1: "sample_events rev_rng 0 (series5\<lparr>rows := iloc_from 0 (rows series5)\<rparr>) 1 1 4
      = Inr ([(''E'', Num 4), (''E2'', Num 21), (''C'', Num 5)], Suc 0)"
    using sample_events_series5[of rev_rng 0] m by (simp add: series5_untrimmed)
  have l2: "map_of [(''E'', Num 1), (''E2'', Num 1), (''C'', Num (0::real))] ''E'' = Some (Num 1)"
    by simp
  have l1: "map_of [(''E'', Num 4), (''E2'', Num 21), (''C'', Num (5::real))] ''C'' = Some (Num 5)"
    by simp
  have r2: "(0::int) < 2" and r1: "(0::int) < 1"
    by simp_all
  have bv: "map (\<lambda>i. block_value shift_rng (series5\<lparr>rows := iloc_from 0 (rows series5)\<rparr>)
                             1 1 1 ''E'' (0 + i)) [0..<nat 2] = [Some (Num 1), Some (Num 3)]"
    by (simp add: block_value_def series5_untrimmed sample_events_shift numeral_2_eq_2)
  obtain vals where v: "map Some vals
                = map (\<lambda>i. block_value shift_rng (series5\<lparr>rows := iloc_from 0 (rows series5)\<rparr>)
                             1 1 1 ''E'' (0 + i)) [0..<nat 2]"
    using bootstrap_estimates[OF bootstrap_shift s2 k2 l2 r2] by blast
  have vv: "vals = [Num 1, Num 3]"
    using v bv by (auto simp: map_eq_Cons_conv)
  have n: "np_mean vals = Num ((1 + 3) / 2)"
    "np_std vals = Num (sqrt (((1 - 2) ^ 2 + (3 - 2) ^ 2) / 2))"
    using vv by (simp_all add: np_two)
  show ?thesis
    using bootstrap_shift bootstrap_series5 v vv n
      bootstrap_estimates[OF bootstrap_series5 s1 k1 l1 r1]
    by auto
qed

text \<open>
  C6 as stated fails with one repeat in three ways. With a block size of 0 every mean is
  NaN, and so is every error. With the columns \<open>E\<close> and \<open>Eerr\<close>, the entry \<open>Eerr\<close> of the
  estimate, where the error of \<open>E\<close> is read, holds the mean 5 of the column \<open>Eerr\<close>. With
  \<open>E = 10 ^ 200\<close> (the constant \<open>huge\<close>) the square of the mean overflows: the heat capacity is the negative
  infinity and its error is NaN.
\<close>

theorem bootstrap_single_repeat_counterexample:
  "bootstrap rev_rng 0 series5 1 1 0 1 0 =
     Inr ([(''E'', NaN), (''Eerr'', NaN), (''E2'', NaN), (''E2err'', NaN),
           (''C'', NaN), (''Cerr'', NaN)], 1)
   \<and> bootstrap rev_rng 0 frame_Eerr 1 1 1 1 0 =
     Inr ([(''E'', Num 1), (''Eerr'', Num 5), (''Eerrerr'', Num 0)], 1)
   \<and> bootstrap rev_rng 0 frame_big 1 1 1 1 0 =
     Inr ([(''E'', Num huge), (''Eerr'', Num 0), (''E2'', Num 1), (''E2err'', Num 0),
           (''C'', NInf), (''Cerr'', NaN)], 1)"
proof -
  have a: "sample_events rev_rng 0 series5 1 1 0 =
             Inr ([(''E'', NaN), (''E2'', NaN), (''C'', NaN)], 1)"
    by (simp add: sample_events_def sample_def draw_def series5_def mean_def col_mean_def
        py_dict_def fsub_def overflow_small)
  have b: "sample_events rev_rng 0 frame_Eerr 1 1 1 = Inr ([(''E'', Num 1), (''Eerr'', Num 5)], 1)"
    by (simp add: sample_events_def sample_def draw_def rev_rng_def frame_Eerr_def mean_def
        col_mean_def fsum_def overflow_small py_dict_def record_of_def)
  have big: "overflow huge = Num huge" "overflow (huge * huge) = PInf" "in_range huge"
    by (simp_all add: overflow_def in_range_def huge_def)
  have c: "sample_events rev_rng 0 frame_big 1 1 1 =
      Inr ([(''E'', Num huge), (''E2'', Num 1), (''C'', NInf)], 1)"
    by (simp add: sample_events_def sample_def draw_def rev_rng_def frame_big_def mean_def
        col_mean_def fsum_def fsub_def big overflow_small py_dict_def record_of_def)
  have n: "np_mean [NaN] = NaN" "np_std [NaN] = NaN" "np_mean [NInf] = NInf" "np_std [NInf] = NaN"
    by (simp_all add: np_mean_def np_std_def fsum_def fsub_def)
  have t: "series5\<lparr>rows := iloc_from 0 (rows series5)\<rparr> = series5"
    "frame_Eerr\<lparr>rows := iloc_from 0 (rows frame_Eerr)\<rparr> = frame_Eerr"
    "frame_big\<lparr>rows := iloc_from 0 (rows frame_big)\<rparr> = frame_big"
    by (simp_all add: iloc_from_def)
  show ?thesis
    by (simp add: bootstrap_def t a b c append_obs_def estimate_obs_def n np_small
        np_mean_single np_std_single big)
qed

section \<open>The lag of autocorrelation\<close>

lemma autocorrelation_large_lag:
  "int (length (rows df_raw)) \<le> t \<Longrightarrow> autocorrelation name t df_raw = Inl AssertionError"
  by (simp add: autocorrelation_def)

lemma autocorrelation_negative_lag:
  assumes "t < 0"
  shows "autocorrelation name t df_raw = Inl KeyError"
proof -
  let ?n = "int (length (rows df_raw))"
  have u: "[0..?n - t - 1] = 0 # [1..?n - t - 1]"
    using assms by (simp add: upto_rec1)
  have "autocorrelation_loop name t df_raw (0 # [1..?n - t - 1]) (0, 0, 0) = Inl KeyError"
    using assms by (simp add: getitem_def series_at_def split: sum.splits)
  then show ?thesis
    using assms u by (simp add: autocorrelation_def)
qed

lemma autocorrelation_loop_ok:
  assumes "name \<in> set (columns df_raw)" "0 \<le> t"
    and "\<forall>i\<in>set idx. 0 \<le> i \<and> i + t < int (length (rows df_raw))"
  shows "\<exists>r. autocorrelation_loop name t df_raw idx acc = Inr r"
  using assms
proof (induction idx arbitrary: acc)
  case Nil
  show ?case by (cases acc) simp
next
  case (Cons i idx)
  obtain a b c where acc: "acc = (a, b, c)" by (cases acc)
  have "0 \<le> i \<and> i + t < int (length (rows df_raw))" using Cons.prems(3) by simp
  then have "series_at (map (\<lambda>r. r name) (rows df_raw)) i = Inr (map (\<lambda>r. r name) (rows df_raw) ! nat i)"
     "series_at (map (\<lambda>r. r name) (rows df_raw)) (i + t) = Inr (map (\<lambda>r. r name) (rows df_raw) ! nat (i + t))"
    using Cons.prems(2) by (simp_all add: series_at_def)
  then show ?case using Cons acc by (simp add: getitem_def)
qed

lemma autocorrelation_in_range:
  assumes "name \<in> set (columns df_raw)" "0 \<le> t" "t < int (length (rows df_raw))"
  shows "\<exists>chi. autocorrelation name t df_raw = Inr chi"
proof -
  have "\<forall>i\<in>set [0..int (length (rows df_raw)) - t - 1]. 0 \<le> i \<and> i + t < int (length (rows df_raw))"
    by auto
  then obtain r where "autocorrelation_loop name t df_raw [0..int (length (rows df_raw)) - t - 1] (0, 0, 0) = Inr r"
    using autocorrelation_loop_ok[OF assms(1,2)] by blast
  then show ?thesis using assms(3) by (cases r) (simp add: autocorrelation_def)
qed

text \<open>
  C4. The claim asks for the lag error at every lag outside \<open>0 .. len - 1\<close>. The
  assertion of \<open>autocorrelation\<close> checks the upper bound only: at the lag \<open>-1\<close>, on a
  series of two records, the assertion passes and the call fails in the loop with the
  \<open>KeyError\<close> of the lookup \<open>df_raw[name][i + t]\<close>.
\<close>

theorem autocorrelation_negative_lag_example:
  "autocorrelation ''E'' (- 1) frame_E = Inl KeyError"
  by (simp add: autocorrelation_def frame_E_def getitem_def series_at_def upto.simps)

section \<open>The table of the runs\<close>

lemma sampling_block_unused:
  "process_data_for_plotting gen s ds path size_multiplier sampling_block write repeat
       thermalization =
   process_data_for_plotting gen s ds path size_multiplier sampling_block' write repeat
       thermalization"
  by (simp add: process_data_for_plotting_def)

lemma first_digits_cold0: "first_digits ''cold0.csv'' = ''0''" "first_digits ''cold1.csv'' = ''1''"
  by (simp_all add: first_digits_def is_digit_def)

lemma is_cold_csv_examples:
  "is_cold_csv ''cold0.csv''" "is_cold_csv ''cold1.csv''" "\<not> is_cold_csv ''readme.txt''"
  by (simp_all add: is_cold_csv_def)

text \<open>
  C3. The claim asks for an empty table when the directory has no run. With the metadata
  file alone in the directory, \<open>rows_list\<close> is empty, the frame built from it has no
  column \<open>T\<close>, and \<open>sort_values('T')\<close> raises \<open>KeyError\<close>.
\<close>

theorem empty_run_list_raises:
  "process_data_for_plotting gen s only_readme ''data'' 1 50 False 200 2000 = Inl KeyError"
  by (simp add: process_data_for_plotting_def only_readme_def is_cold_csv_def sort_values_T_def
      table_columns_def)

text \<open>
  C1. The claim asks that the configured block size and repeat count reach \<open>bootstrap\<close>
  in their positions, after \<open>thermalization\<close> records are dropped. For one run of the four
  records of \<open>series5\<close>, with block size 4, one repeat and thermalization 0, the code calls
  \<open>bootstrap\<close> with block size 1, no repeat and thermalization 1000: the row of the run
  has no estimate. The claim's call, with block size 4, one repeat and thermalization 0,
  has the estimates of the second equation.
\<close>

theorem arguments_shifted:
  "process_data_for_plotting rev_rng 0 one_run ''data'' 1 4 False 1 0 =
     Inr (([[(''K'', Num 1), (''T'', Num 2)]], 1000, 1), 0)
   \<and> bootstrap rev_rng 0 (read_csv one_run ''data/cold0.csv'') 1 2 4 1 0 =
     Inr ([(''E'', Num 4), (''Eerr'', Num 0), (''E2'', Num 21), (''E2err'', Num 0),
           (''C'', Num 20), (''Cerr'', Num 0)], 1)"
proof -
  have a: "process_data_for_plotting rev_rng 0 one_run ''data'' 1 4 False 1 0 =
     Inr (([[(''K'', Num 1), (''T'', Num 2)]], 1000, 1), 0)"
    by (simp add: process_data_for_plotting_def one_run_def is_cold_csv_examples
      sort_values_T_def table_columns_def process_file_def first_digits_cold0 int_of_digits_def
      sweep_at_def bootstrap_def)
  have m: "mset (rev_rng 0 4) = mset [0..<4]"
    by (simp add: rev_rng_def)
  have se: "sample_events rev_rng 0 series5 1 2 4 =
           Inr ([(''E'', Num 4), (''E2'', Num 21), (''C'', Num 20)], 1)"
    using mean_series5_perm[of rev_rng 0] m
    by (simp add: sample_events_def py_dict_def fsub_def overflow_small)
  have t: "series5\<lparr>rows := iloc_from 0 (rows series5)\<rparr> = series5"
    by (simp add: iloc_from_def)
  have b: "bootstrap rev_rng 0 (read_csv one_run ''data/cold0.csv'') 1 2 4 1 0 =
     Inr ([(''E'', Num 4), (''Eerr'', Num 0), (''E2'', Num 21), (''E2err'', Num 0),
           (''C'', Num 20), (''Cerr'', Num 0)], 1)"
    by (simp add: bootstrap_def one_run_def t se append_obs_def estimate_obs_def np_small)
  show ?thesis
    using a b by simp
qed

lemma fle_t_key: "t_key a \<le> t_key b \<Longrightarrow> fle (column_T a) (column_T b)"
  by (cases "column_T a"; cases "column_T b") (auto simp: t_key_def)

text \<open>
  C7. The rows of the table that \<open>process_data_for_plotting\<close> returns are in
  non-decreasing order of their column \<open>T\<close>, whatever the order of the files.
\<close>

theorem table_sorted_by_T:
  assumes "process_data_for_plotting gen s ds path size_multiplier sampling_block write repeat
             thermalization = Inr ((df, mcs, system_size), s')"
  shows "sorted_wrt (\<lambda>a b. fle (column_T a) (column_T b)) df"
proof -
  obtain rows_list where "sort_values_T rows_list = Inr df"
    using assms by (auto simp: process_data_for_plotting_def Let_def split: sum.splits)
  then have "df = sort_key t_key rows_list"
    by (auto simp: sort_values_T_def split: if_splits)
  then have "sorted (map t_key df)"
    by simp
  then have "sorted_wrt (\<lambda>a b. t_key a \<le> t_key b) df"
    by (simp add: sorted_map)
  then show ?thesis
    by (rule sorted_wrt_mono_rel[rotated]) (simp add: fle_t_key)
qed

lemma two_runs_table:
  "process_data_for_plotting rev_rng 0 two_runs ''data'' 1 50 False 0 0 =
     Inr (([[(''K'', Num 4), (''T'', Num 1)], [(''K'', Num 2), (''T'', Num 3)]], 1000, 8), 0)"
  by (simp add: process_data_for_plotting_def two_runs_def is_cold_csv_examples sort_values_T_def
      table_columns_def process_file_def first_digits_cold0 int_of_digits_def sweep_at_def
      bootstrap_def t_key_def column_T_def)

theorem table_sorted_by_T_witness:
  "process_data_for_plotting rev_rng 0 two_runs ''data'' 1 50 False 0 0 =
     Inr (([[(''K'', Num 4), (''T'', Num 1)], [(''K'', Num 2), (''T'', Num 3)]], 1000, 8), 0)
   \<and> sorted_wrt (\<lambda>a b. fle (column_T a) (column_T b))
        [[(''K'', Num 4), (''T'', Num 1)], [(''K'', Num 2), (''T'', Num 3)]]"
  using two_runs_table table_sorted_by_T[OF two_runs_table] by simp

section \<open>The inverse temperature of a run\<close>

lemma keys_sample_events:
  assumes "sample_events gen s df system_size beta sb = Inr (d, s')"
  shows "keys d \<subseteq> set (columns df) \<union> {''C'', ''X''}"
  using sample_events_keys[OF assms] by (auto split: if_splits)

lemma keys_bootstrap_loop:
  "bootstrap_loop gen df system_size beta sb k s obs = Inr (obs', s') \<Longrightarrow>
     keys obs' \<subseteq> keys obs \<union> set (columns df) \<union> {''C'', ''X''}"
proof (induction k arbitrary: s obs)
  case 0
  then show ?case by auto
next
  case (Suc k)
  obtain d s1 where d: "sample_events gen s df system_size beta sb = Inr (d, s1)"
    and r: "bootstrap_loop gen df system_size beta sb k s1 (fold append_obs d obs) = Inr (obs', s')"
    using Suc.prems by (auto split: sum.splits)
  show ?case
    using Suc.IH[OF r] keys_sample_events[OF d] by (auto simp: keys_append_obs)
qed

lemma keys_bootstrap:
  assumes "bootstrap gen s file system_size beta sb repeat thermalization = Inr (estimates, s')"
  shows "keys estimates \<subseteq> (set (columns file) \<union> {''C'', ''X''})
           \<union> (\<lambda>n. n @ ''err'') ` (set (columns file) \<union> {''C'', ''X''})"
proof -
  let ?df = "file\<lparr>rows := iloc_from thermalization (rows file)\<rparr>"
  obtain obs where o: "bootstrap_loop gen ?df system_size beta sb (nat repeat) s [] = Inr (obs, s')"
    and e: "estimates = fold estimate_obs obs []"
    using assms by (auto simp: bootstrap_def Let_def split: sum.splits)
  have k: "keys obs \<subseteq> set (columns file) \<union> {''C'', ''X''}"
    using keys_bootstrap_loop[OF o] by (auto simp: keys_def)
  have "keys estimates = keys obs \<union> (\<lambda>n. n @ ''err'') ` keys obs"
    using keys_estimate_obs[of obs "[]"] e by (simp add: keys_def)
  then show ?thesis using k by blast
qed

lemma update_all_untouched:
  "k \<notin> keys estimates \<Longrightarrow>
     map_of (fold (\<lambda>(name, v). AList.update name v) estimates data_dict) k = map_of data_dict k"
  by (simp add: py_dict_acc map_add_def keys_def map_of_eq_None_iff[THEN iffD2])

lemma process_file_Inr:
  assumes "process_file gen ds path sweep system_size repeat thermalization fname s = Inr (row, s')"
  shows "\<exists>k beta estimates.
           sweep_at sweep (int_of_digits (first_digits fname)) = Inr (k, beta)
         \<and> bootstrap gen s (read_csv ds (path @ ''/'' @ fname)) system_size beta
              repeat thermalization 1000 = Inr (estimates, s')
         \<and> row = fold (\<lambda>(name, v). AList.update name v) estimates
                    [(''K'', Num k), (''T'', Num beta)]"
  using assms by (auto simp: process_file_def split: if_splits sum.splits)

lemma process_files_rows:
  "process_files gen ds path sweep system_size repeat thermalization files s rows_list
      = Inr (rows_list', s') \<Longrightarrow> row \<in> set rows_list' \<Longrightarrow>
     row \<in> set rows_list
     \<or> (\<exists>fname s1 s2. fname \<in> set files
          \<and> process_file gen ds path sweep system_size repeat thermalization fname s1
              = Inr (row, s2))"
proof (induction files arbitrary: s rows_list)
  case Nil
  then show ?case by simp
next
  case (Cons f files)
  obtain data_dict s1 where p: "process_file gen ds path sweep system_size repeat thermalization f s
        = Inr (data_dict, s1)"
    and r: "process_files gen ds path sweep system_size repeat thermalization files s1
        (rows_list @ [data_dict]) = Inr (rows_list', s')"
    using Cons.prems(1) by (auto split: sum.splits)
  show ?case
    using Cons.IH[OF r Cons.prems(2)] p by auto
qed

text \<open>
  C9, as amended. Every row of the table comes from a data file of the directory: the
  value passed to \<open>bootstrap\<close> as \<open>beta\<close> is the entry \<open>T\<close> of the metadata table at the
  file's index (the raw \<open>T\<close>, not its inverse), and the row is the pair of \<open>K\<close> and this
  \<open>T\<close> updated with the estimates. When the file has no column named \<open>T\<close>, the row's
  \<open>T\<close> is that \<open>beta\<close>.
\<close>

theorem row_beta_is_T:
  assumes "process_data_for_plotting gen s ds path size_multiplier sampling_block write repeat
             thermalization = Inr ((df, mcs, system_size), s')"
    and "row \<in> set df"
  shows "\<exists>lsize sweep fname k beta estimates s1 s2.
           meta_info ds = Inr (mcs, lsize, sweep)
         \<and> fname \<in> set (listdir ds) \<and> is_cold_csv fname
         \<and> sweep_at sweep (int_of_digits (first_digits fname)) = Inr (k, beta)
         \<and> bootstrap gen s1 (read_csv ds (path @ ''/'' @ fname)) system_size beta
              repeat thermalization 1000 = Inr (estimates, s2)
         \<and> row = fold (\<lambda>(name, v). AList.update name v) estimates
                    [(''K'', Num k), (''T'', Num beta)]
         \<and> (''T'' \<notin> set (columns (read_csv ds (path @ ''/'' @ fname)))
              \<longrightarrow> column_T row = Num beta)"
proof -
  obtain lsize sweep rows_list where m: "meta_info ds = Inr (mcs, lsize, sweep)"
    and sz: "system_size = lsize * lsize * lsize * size_multiplier"
    and pf: "process_files gen ds path sweep system_size repeat thermalization
               (filter is_cold_csv (listdir ds)) s [] = Inr (rows_list, s')"
    and sv: "sort_values_T rows_list = Inr df"
    using assms(1) by (auto simp: process_data_for_plotting_def Let_def split: sum.splits)
  have "df = sort_key t_key rows_list"
    using sv by (auto simp: sort_values_T_def split: if_splits)
  then have rl: "row \<in> set rows_list"
    using assms(2) by simp
  obtain fname s1 s2 where f: "fname \<in> set (filter is_cold_csv (listdir ds))"
    and p: "process_file gen ds path sweep system_size repeat thermalization fname s1
              = Inr (row, s2)"
    using process_files_rows[OF pf rl] by fastforce
  obtain k beta estimates where sw: "sweep_at sweep (int_of_digits (first_digits fname)) = Inr (k, beta)"
    and b: "bootstrap gen s1 (read_csv ds (path @ ''/'' @ fname)) system_size beta
              repeat thermalization 1000 = Inr (estimates, s2)"
    and r: "row = fold (\<lambda>(name, v). AList.update name v) estimates
                    [(''K'', Num k), (''T'', Num beta)]"
    using process_file_Inr[OF p] by blast
  have t: "column_T row = Num beta" if "''T'' \<notin> set (columns (read_csv ds (path @ ''/'' @ fname)))"
  proof -
    have "''T'' \<notin> keys estimates"
      using keys_bootstrap[OF b] that by auto
    then show ?thesis
      using update_all_untouched[of "''T''" estimates "[(''K'', Num k), (''T'', Num beta)]"] r
      by (simp add: column_T_def)
  qed
  have f': "fname \<in> set (listdir ds)" "is_cold_csv fname"
    using f by simp_all
  have t': "''T'' \<notin> set (columns (read_csv ds (path @ ''/'' @ fname)))
              \<longrightarrow> column_T row = Num beta"
    using t by blast
  show ?thesis
    using m f' sw b r t' by blast
qed

lemma iloc_from_1000: "iloc_from 1000 (replicate 1001 r) = [r]"
  by (simp add: iloc_from_def)

lemma sample_events_long_run:
  "sample_events rev_rng 0
        \<lparr>columns = [''E'', ''E2''], rows = [record_of [(''E'', 1), (''E2'', 3)]]\<rparr>
        1 2 1 = Inr ([(''E'', Num 1), (''E2'', Num 3), (''C'', Num 8)], 1)"
  by (simp add: sample_events_def sample_def draw_def rev_rng_def mean_def col_mean_def fsum_def fsub_def overflow_small
      py_dict_def record_of_def)

lemma long_run_table:
  "process_data_for_plotting rev_rng 0 long_run ''data'' 1 50 False 1 1 =
     Inr (([[(''K'', Num 1), (''T'', Num 2), (''E'', Num 1), (''Eerr'', Num 0),
             (''E2'', Num 3), (''E2err'', Num 0), (''C'', Num 8), (''Cerr'', Num 0)]],
           1000, 1), 1)"
proof -
  have b: "bootstrap rev_rng 0 (read_csv long_run ''data/cold0.csv'') 1 2 1 1 1000 =
      Inr ([(''E'', Num 1), (''Eerr'', Num 0), (''E2'', Num 3), (''E2err'', Num 0),
            (''C'', Num 8), (''Cerr'', Num 0)], 1)"
    by (simp add: bootstrap_def long_run_def iloc_from_1000 sample_events_long_run
        append_obs_def estimate_obs_def np_small)
  have p: "process_file rev_rng long_run ''data'' [(1, 2)] 1 1 1 ''cold0.csv'' 0 =
      Inr ([(''K'', Num 1), (''T'', Num 2), (''E'', Num 1), (''Eerr'', Num 0),
             (''E2'', Num 3), (''E2err'', Num 0), (''C'', Num 8), (''Cerr'', Num 0)], 1)"
    using b by (simp add: process_file_def first_digits_cold0 int_of_digits_def sweep_at_def)
  show ?thesis
    using p
    by (simp add: process_data_for_plotting_def long_run_def is_cold_csv_examples
        sort_values_T_def table_columns_def)
qed

theorem row_beta_is_T_witness:
  "process_data_for_plotting rev_rng 0 long_run ''data'' 1 50 False 1 1 =
     Inr (([[(''K'', Num 1), (''T'', Num 2), (''E'', Num 1), (''Eerr'', Num 0),
             (''E2'', Num 3), (''E2err'', Num 0), (''C'', Num 8), (''Cerr'', Num 0)]],
           1000, 1), 1)
   \<and> (\<exists>lsize sweep fname k beta estimates s1 s2.
           meta_info long_run = Inr (1000, lsize, sweep)
         \<and> fname \<in> set (listdir long_run) \<and> is_cold_csv fname
         \<and> sweep_at sweep (int_of_digits (first_digits fname)) = Inr (k, beta)
         \<and> bootstrap rev_rng s1 (read_csv long_run (''data'' @ ''/'' @ fname)) 1 beta 1 1 1000
             = Inr (estimates, s2)
         \<and> [(''K'', Num 1), (''T'', Num 2), (''E'', Num 1), (''Eerr'', Num 0),
             (''E2'', Num 3), (''E2err'', Num 0), (''C'', Num 8), (''Cerr'', Num 0)]
             = fold (\<lambda>(name, v). AList.update name v) estimates
                 [(''K'', Num k), (''T'', Num beta)]
         \<and> ''T'' \<notin> set (columns (read_csv long_run (''data'' @ ''/'' @ fname)))
         \<and> column_T [(''K'', Num 1), (''T'', Num 2), (''E'', Num 1), (''Eerr'', Num 0),
             (''E2'', Num 3), (''E2err'', Num 0), (''C'', Num 8), (''Cerr'', Num 0)]
             = Num beta)"
proof -
  let ?row = "[(''K'', Num 1), (''T'', Num 2), (''E'', Num 1), (''Eerr'', Num 0),
             (''E2'', Num 3), (''E2err'', Num 0), (''C'', Num 8), (''Cerr'', Num (0::real))]"
  have r: "?row \<in> set [?row]"
    by simp
  have c: "''T'' \<notin> set (columns (read_csv long_run f))" for f
    by (simp add: long_run_def)
  show ?thesis
    using long_run_table row_beta_is_T[OF long_run_table r] c by blast
qed

text \<open>
  C9 as stated fails for a data file with a column named \<open>T\<close>: \<open>beta\<close> is the metadata's
  \<open>T = 2\<close> (the heat capacity \<open>8 = 2 ^ 2 * (3 - 1)\<close> shows it), and the row's \<open>T\<close> is the
  estimate 7 of the column, which \<open>data_dict.update(estimates)\<close> wrote over it.
\<close>

theorem row_T_overwritten:
  "process_data_for_plotting rev_rng 0 run_with_T ''data'' 1 50 False 1 1 =
     Inr (([[(''K'', Num 1), (''T'', Num 7), (''E'', Num 1), (''Eerr'', Num 0),
             (''E2'', Num 3), (''E2err'', Num 0), (''Terr'', Num 0),
             (''C'', Num 8), (''Cerr'', Num 0)]], 1000, 1), 1)"
proof -
  have se: "sample_events rev_rng 0
        \<lparr>columns = [''E'', ''E2'', ''T''], rows = [record_of [(''E'', 1), (''E2'', 3), (''T'', 7)]]\<rparr>
        1 2 1 = Inr ([(''E'', Num 1), (''E2'', Num 3), (''T'', Num 7), (''C'', Num 8)], 1)"
    by (simp add: sample_events_def sample_def draw_def rev_rng_def mean_def col_mean_def fsum_def fsub_def overflow_small
        py_dict_def record_of_def)
  have b: "bootstrap rev_rng 0 (read_csv run_with_T ''data/cold0.csv'') 1 2 1 1 1000 =
      Inr ([(''E'', Num 1), (''Eerr'', Num 0), (''E2'', Num 3), (''E2err'', Num 0),
            (''T'', Num 7), (''Terr'', Num 0), (''C'', Num 8), (''Cerr'', Num 0)], 1)"
    by (simp add: bootstrap_def run_with_T_def iloc_from_1000 se append_obs_def
        estimate_obs_def np_small)
  have p: "process_file rev_rng run_with_T ''data'' [(1, 2)] 1 1 1 ''cold0.csv'' 0 =
      Inr ([(''K'', Num 1), (''T'', Num 7), (''E'', Num 1), (''Eerr'', Num 0),
             (''E2'', Num 3), (''E2err'', Num 0), (''Terr'', Num 0),
             (''C'', Num 8), (''Cerr'', Num 0)], 1)"
    using b by (simp add: process_file_def first_digits_cold0 int_of_digits_def sweep_at_def)
  show ?thesis
    using p
    by (simp add: process_data_for_plotting_def run_with_T_def is_cold_csv_examples
        sort_values_T_def table_columns_def)
qed

end
